theory Spec2Isabelle
  imports Main "HOL-Library.Word" "HOL-Library.Signed_Division"
begin

unbundle bit_operations_syntax

section \<open>The kernel monitor of kern/monitor.c\<close>

text \<open>
  The monitor is a read-eval-print loop over four commands. Two of them inspect the
  machine: \<open>showmappings\<close> walks the kernel page directory over an address range
  and \<open>backtrace\<close> walks the chain of saved frame pointers.

  Addresses and page-table entries are unsigned 32-bit values (\<open>uint32_t\<close>,
  \<open>pte_t\<close>): arithmetic wraps and comparisons are unsigned. Handler statuses are
  C \<open>int\<close>s that never leave a small range and are modelled as \<open>int\<close>.
\<close>

type_synonym u32 = "32 word"
type_synonym pte_t = u32

subsection \<open>What the monitor consumes from the rest of the kernel\<close>

text \<open>
  \<open>struct Eipdebuginfo\<close> (kern/kdebug.h), restricted to the fields that
  \<open>mon_backtrace\<close> prints.
\<close>

record Eipdebuginfo =
  eip_file :: string
  eip_line :: int
  eip_fn_name :: string
  eip_fn_namelen :: int
  eip_fn_addr :: u32

text \<open>
  monitor.c includes its constants and collaborators from headers that are not part of
  the source under study (inc/mmu.h, inc/error.h, inc/memlayout.h, inc/string.h,
  kern/pmap.h, kern/kdebug.h, inc/x86.h, the linker script). They are parameters of the
  model, gathered in one record:
  \<^item> \<open>PGSIZE\<close>, the \<open>PTE_*\<close> flag masks, \<open>E_INVAL\<close>, \<open>KERNBASE\<close> are the macros
    of that name;
  \<^item> \<open>strtol s base\<close> is the library routine: it returns the parsed \<open>long\<close> and
    the text left at \<open>*endptr\<close> (empty when \<open>endptr\<close> points at the terminating
    NUL);
  \<^item> \<open>pgdir_walk va create\<close> is \<open>pgdir_walk(kern_pgdir, va, create)\<close>: \<open>None\<close>
    for the null pointer, otherwise the entry the returned pointer points to;
  \<^item> \<open>debuginfo_eip eip\<close> is the \<open>info\<close> structure that \<open>debuginfo_eip(eip, &info)\<close>
    fills in (its return value is ignored by the monitor);
  \<^item> \<open>read_ebp\<close> is the frame pointer on entry to \<open>mon_backtrace\<close>, and
    \<open>mem a\<close> the 32-bit word stored at byte address \<open>a\<close>;
  \<^item> \<open>sym_start\<close>, \<open>sym_entry\<close>, \<open>sym_etext\<close>, \<open>sym_edata\<close>, \<open>sym_end\<close> are the
    addresses of the linker symbols \<open>_start\<close>, \<open>entry\<close>, \<open>etext\<close>, \<open>edata\<close>, \<open>end\<close>.
\<close>

record kernel =
  PGSIZE :: u32
  PTE_P :: u32
  PTE_W :: u32
  PTE_U :: u32
  PTE_PWT :: u32
  PTE_PCD :: u32
  PTE_A :: u32
  PTE_D :: u32
  PTE_PS :: u32
  PTE_G :: u32
  PTE_AVAIL :: u32
  E_INVAL :: int
  KERNBASE :: u32
  strtol :: "string \<Rightarrow> int \<Rightarrow> int \<times> string"
  pgdir_walk :: "u32 \<Rightarrow> bool \<Rightarrow> pte_t option"
  debuginfo_eip :: "u32 \<Rightarrow> Eipdebuginfo"
  read_ebp :: u32
  mem :: "u32 \<Rightarrow> u32"
  sym_start :: u32
  sym_entry :: u32
  sym_etext :: u32
  sym_edata :: u32
  sym_end :: u32

text \<open>
  Modelled from the spec: the rounding macros \<open>ROUNDDOWN\<close> and \<open>ROUNDUP\<close>
  (inc/types.h) are not in the source under study. The spec has the start address
  "rounded down to the nearest page boundary", the end address "rounded up to the
  nearest page boundary", and address values that "wrap at 32 bits": rounding down
  removes the remainder, rounding up rounds down after adding \<open>n - 1\<close> in 32-bit
  arithmetic.
\<close>

definition ROUNDDOWN :: "u32 \<Rightarrow> u32 \<Rightarrow> u32" where
  "ROUNDDOWN a n = a - a mod n"

definition ROUNDUP :: "u32 \<Rightarrow> u32 \<Rightarrow> u32" where
  "ROUNDUP a n = ROUNDDOWN (a + n - 1) n"

text \<open>
  Modelled from the spec: the macro \<open>PTE_ADDR\<close> (inc/mmu.h) is not in the source
  under study. The spec has an entry hold "a physical frame address in its high bits
  and a fixed set of attribute flags in its low bits", and the reported address is the
  entry with the "attribute bits masked off": every bit of one of the ten flag masks
  is cleared.
\<close>

definition PTE_FLAGS :: "kernel \<Rightarrow> u32" where
  "PTE_FLAGS k = PTE_P k OR PTE_W k OR PTE_U k OR PTE_PWT k OR PTE_PCD k OR PTE_A k OR
     PTE_D k OR PTE_PS k OR PTE_G k OR PTE_AVAIL k"

definition PTE_ADDR :: "kernel \<Rightarrow> pte_t \<Rightarrow> u32" where
  "PTE_ADDR k pte = pte AND NOT (PTE_FLAGS k)"

subsection \<open>Observable behaviour\<close>

text \<open>
  A run is observed through the calls it makes, in order: \<open>cprintf\<close> with its
  format string and arguments, \<open>pgdir_walk\<close> with the address and the create flag,
  a 32-bit load through a pointer, \<open>debuginfo_eip\<close>, and \<open>readline\<close> with its
  prompt.
\<close>

datatype arg = U u32 | I int | S string

datatype event =
    Cprintf string "arg list"
  | Pgdir_walk u32 bool
  | Load u32
  | Debuginfo_eip u32
  | Readline string

text \<open>
  How a handler ends: it returns an \<open>int\<close>; or it hands the null pointer
  \<open>argv[argc]\<close> to \<open>strtol\<close>, which reads through it (\<open>Fault\<close>); or it
  comes to its return after it has written past the end of a local array, with its stack
  frame overwritten (\<open>Overrun\<close>), and does not get back to its caller; or its loop
  is still running when the iterations allowed to the run (the fuel) are used up
  (\<open>OutOfFuel\<close>). A loop that is \<open>OutOfFuel\<close> for every amount of fuel never ends.
\<close>

datatype status = Return int | Fault | Overrun | OutOfFuel

subsection \<open>get_perm\<close>

definition strcat :: "string \<Rightarrow> string \<Rightarrow> string" where
  "strcat dst src = dst @ src"

text \<open>
  \<open>perm\<close> is the text held at the caller's buffer; the pointer \<open>pte\<close> is
  \<open>None\<close> when null and otherwise the entry it points to. \<open>strcat\<close> does not
  know the size of the buffer: whether the text fits is the caller's matter.
\<close>

definition get_perm :: "kernel \<Rightarrow> string \<Rightarrow> pte_t option \<Rightarrow> string" where
  "get_perm k perm pte =
     (case pte of
        None \<Rightarrow> perm
      | Some e \<Rightarrow>
          (let perm = strcat perm (if e AND PTE_AVAIL k \<noteq> 0 then ''(AVL)'' else ''-'');
               perm = strcat perm (if e AND PTE_G k \<noteq> 0 then ''(G)'' else ''-'');
               perm = strcat perm (if e AND PTE_PS k \<noteq> 0 then ''(PS)'' else ''-'');
               perm = strcat perm (if e AND PTE_D k \<noteq> 0 then ''(D)'' else ''-'');
               perm = strcat perm (if e AND PTE_A k \<noteq> 0 then ''(A)'' else ''-'');
               perm = strcat perm (if e AND PTE_PCD k \<noteq> 0 then ''(PCD)'' else ''-'');
               perm = strcat perm (if e AND PTE_PWT k \<noteq> 0 then ''(PWT)'' else ''-'');
               perm = strcat perm (if e AND PTE_U k \<noteq> 0 then ''(U)'' else ''-'');
               perm = strcat perm (if e AND PTE_W k \<noteq> 0 then ''(W)'' else ''-'');
               perm = strcat perm (if e AND PTE_P k \<noteq> 0 then ''(P)'' else ''-'')
           in perm))"

subsection \<open>mon_showmappings\<close>

text \<open>
  \<open>argv\<close> is the list of the \<open>argc\<close> tokens of the command line; \<open>argv[i]\<close>
  is the \<open>i\<close>-th token for \<open>i < argc\<close> and the null pointer that \<open>runcmd\<close>
  stores at \<open>argv[argc]\<close>. The third parameter of a handler, the trap frame
  \<open>tf\<close>, is used by none of them and is left out; the second parameter of the
  model is the fuel of the handler's loop.
\<close>

text \<open>
  The local array \<open>char perm[] = ""\<close> has one byte, the terminating NUL of the empty
  text. A text of \<open>n\<close> characters needs \<open>n + 1\<close> bytes, so \<open>get_perm\<close>
  writes past the end of \<open>perm\<close> whenever it appends anything. The bytes past the
  array belong to the stack frame of \<open>mon_showmappings\<close>. The model records the
  calls that the handler goes on to make with the text that was written, and it does
  not let the handler return: where the handler would return, the run ends in
  \<open>Overrun\<close>.
\<close>

definition sizeof_perm :: nat where
  "sizeof_perm = 1"

definition overruns :: "string \<Rightarrow> bool" where
  "overruns text = (sizeof_perm < length text + 1)"

definition after_overrun :: "status \<Rightarrow> status" where
  "after_overrun st =
     (case st of
        Return r \<Rightarrow> Overrun
      | Fault \<Rightarrow> Fault
      | Overrun \<Rightarrow> Overrun
      | OutOfFuel \<Rightarrow> OutOfFuel)"

definition arg_at :: "string list \<Rightarrow> nat \<Rightarrow> string option" where
  "arg_at argv i = (if i < length argv then Some (argv ! i) else None)"

text \<open>
  The loop \<open>for (addr = start_addr; addr <= end_addr; addr += PGSIZE)\<close>. Each
  iteration uses one unit of fuel; \<open>memset(perm, 0, sizeof(perm))\<close> clears the one
  byte of \<open>perm\<close>, which empties its text before \<open>get_perm\<close> appends to it.
  An iteration that has written past \<open>perm\<close> turns the return of the handler into
  \<open>Overrun\<close>.
\<close>

fun showmappings_loop :: "kernel \<Rightarrow> nat \<Rightarrow> u32 \<Rightarrow> u32 \<Rightarrow> event list \<times> status" where
  "showmappings_loop k 0 addr end_addr =
     (if addr \<le> end_addr then ([], OutOfFuel) else ([], Return 0))"
| "showmappings_loop k (Suc fuel) addr end_addr =
     (if addr \<le> end_addr then
        (let pte = pgdir_walk k addr False;
             (body, over) =
               (case pte of
                  None \<Rightarrow> ([Cprintf ''VA [0x%08x] not mapped.\<newline>'' [U addr]], False)
                | Some e \<Rightarrow>
                    if e AND PTE_P k = 0
                    then ([Cprintf ''VA [0x%08x] not mapped.\<newline>'' [U addr]], False)
                    else (let perm = get_perm k [] pte
                          in ([Cprintf ''VA [0x%08x] mapped at PA [0x%08x], permission: ''
                                 [U addr, U (PTE_ADDR k e)],
                               Cprintf ''%s\<newline>'' [S perm]], overruns perm)));
             (rest, st) = showmappings_loop k fuel (addr + PGSIZE k) end_addr
         in (Pgdir_walk addr False # body @ rest, if over then after_overrun st else st))
      else ([], Return 0))"

definition mon_showmappings :: "kernel \<Rightarrow> nat \<Rightarrow> string list \<Rightarrow> event list \<times> status" where
  "mon_showmappings k fuel argv =
     (let argc = length argv in
      case arg_at argv 1 of
        None \<Rightarrow> ([], Fault)
      | Some a1 \<Rightarrow>
          (let (v1, endptr) = strtol k a1 16;
               start_addr = (word_of_int v1 :: u32)
           in if endptr \<noteq> [] then
                ([Cprintf ''invalid start address.\<newline>'' []], Return (- E_INVAL k))
              else
                (let start_addr = ROUNDDOWN start_addr (PGSIZE k) in
                 if argc = 2 then
                   (let pte = pgdir_walk k start_addr False in
                    case pte of
                      None \<Rightarrow>
                        ([Pgdir_walk start_addr False,
                          Cprintf ''VA [0x%08x] not mapped.\<newline>'' [U start_addr]], Return 0)
                    | Some e \<Rightarrow>
                        if e AND PTE_P k = 0 then
                          ([Pgdir_walk start_addr False,
                            Cprintf ''VA [0x%08x] not mapped.\<newline>'' [U start_addr]], Return 0)
                        else
                          (let perm = get_perm k [] pte
                           in ([Pgdir_walk start_addr False,
                                Cprintf ''VA [0x%08x] mapped at PA [0x%08x], permission: ''
                                  [U start_addr, U (PTE_ADDR k e)],
                                Cprintf ''%s\<newline>'' [S perm]],
                               if overruns perm then after_overrun (Return 0) else Return 0)))
                 else if argc \<noteq> 3 then
                   ([Cprintf ''require one or two arguments,\<newline>'' [],
                     Cprintf ''i.e., start [and end] address.\<newline>'' []], Return (- E_INVAL k))
                 else
                   (case arg_at argv 2 of
                      None \<Rightarrow> ([], Fault)
                    | Some a2 \<Rightarrow>
                        (let (v2, endptr) = strtol k a2 16;
                             end_addr = (word_of_int v2 :: u32)
                         in if endptr \<noteq> [] then
                              ([Cprintf ''invalid start address.\<newline>'' []],
                               Return (- E_INVAL k))
                            else if start_addr > end_addr then
                              ([Cprintf ''start address higher than end address\<newline>'' []],
                               Return (- E_INVAL k))
                            else
                              (let end_addr' = ROUNDUP end_addr (PGSIZE k);
                                   (walk, st) = showmappings_loop k fuel start_addr end_addr'
                               in ([Cprintf ''%x round up to '' [U end_addr],
                                    Cprintf ''%x\<newline>'' [U end_addr'],
                                    Cprintf ''start_addr:%x, end_addr:%x\<newline>''
                                      [U start_addr, U end_addr']] @ walk, st)))))))"

subsection \<open>mon_help, mon_kerninfo, mon_backtrace\<close>

text \<open>
  The command table. A handler is a function pointer in the source; here it is a tag
  that \<open>call\<close> (after the handlers) turns into the function it points to.
\<close>

datatype handler = Mon_help | Mon_kerninfo | Mon_backtrace | Mon_showmappings

record Command =
  name :: string
  sname :: string
  desc :: string
  func :: handler

definition commands :: "Command list" where
  "commands =
     [\<lparr>name = ''help'', sname = ''h'', desc = ''Display this list of commands'',
       func = Mon_help\<rparr>,
      \<lparr>name = ''kerninfo'', sname = ''ki'', desc = ''Display information about the kernel'',
       func = Mon_kerninfo\<rparr>,
      \<lparr>name = ''backtrace'', sname = ''bt'', desc = ''show the kernel stack backtrace'',
       func = Mon_backtrace\<rparr>,
      \<lparr>name = ''showmappings'', sname = ''sm'',
       desc = ''show mapping of the physical address range'', func = Mon_showmappings\<rparr>]"

definition mon_help :: "kernel \<Rightarrow> nat \<Rightarrow> string list \<Rightarrow> event list \<times> status" where
  "mon_help k fuel argv =
     (map (\<lambda>c. Cprintf ''%s - %s\<newline>'' [S (name c), S (desc c)]) commands, Return 0)"

definition mon_kerninfo :: "kernel \<Rightarrow> nat \<Rightarrow> string list \<Rightarrow> event list \<times> status" where
  "mon_kerninfo k fuel argv =
     ([Cprintf ''Special kernel symbols:\<newline>'' [],
       Cprintf ''  _start                  %08x (phys)\<newline>'' [U (sym_start k)],
       Cprintf ''  entry  %08x (virt)  %08x (phys)\<newline>''
         [U (sym_entry k), U (sym_entry k - KERNBASE k)],
       Cprintf ''  etext  %08x (virt)  %08x (phys)\<newline>''
         [U (sym_etext k), U (sym_etext k - KERNBASE k)],
       Cprintf ''  edata  %08x (virt)  %08x (phys)\<newline>''
         [U (sym_edata k), U (sym_edata k - KERNBASE k)],
       Cprintf ''  end    %08x (virt)  %08x (phys)\<newline>''
         [U (sym_end k), U (sym_end k - KERNBASE k)],
       Cprintf ''Kernel executable memory footprint: %dKB\<newline>''
         [I (sint (ROUNDUP (sym_end k - sym_entry k) 1024) sdiv 1024)]],
      Return 0)"

text \<open>
  The loop \<open>while (ebp)\<close> of \<open>mon_backtrace\<close>. \<open>(uint32_t *)ebp + i\<close> is
  the byte address \<open>ebp + 4 * i\<close>. Each iteration uses one unit of fuel; when the
  loop ends the handler returns 0.
\<close>

fun backtrace_loop :: "kernel \<Rightarrow> nat \<Rightarrow> u32 \<Rightarrow> event list \<times> status" where
  "backtrace_loop k 0 ebp = (if ebp \<noteq> 0 then ([], OutOfFuel) else ([], Return 0))"
| "backtrace_loop k (Suc fuel) ebp =
     (if ebp \<noteq> 0 then
        (let eip = mem k (ebp + 4);
             args0 = mem k (ebp + 8);
             args1 = mem k (ebp + 12);
             args2 = mem k (ebp + 16);
             args3 = mem k (ebp + 20);
             args4 = mem k (ebp + 24);
             info = debuginfo_eip k eip;
             ebp' = mem k ebp;
             (rest, st) = backtrace_loop k fuel ebp'
         in ([Load (ebp + 4), Load (ebp + 8), Load (ebp + 12), Load (ebp + 16),
              Load (ebp + 20), Load (ebp + 24),
              Debuginfo_eip eip,
              Cprintf ''  ebp %08x  eip %08x  args %08x %08x %08x %08x %08x\<newline>''
                [U ebp, U eip, U args0, U args1, U args2, U args3, U args4],
              Cprintf ''%s:%d: %.*s+%d\<newline>''
                [S (eip_file info), I (eip_line info), I (eip_fn_namelen info),
                 S (eip_fn_name info), U (eip - eip_fn_addr info)],
              Load ebp] @ rest, st))
      else ([], Return 0))"

definition mon_backtrace :: "kernel \<Rightarrow> nat \<Rightarrow> string list \<Rightarrow> event list \<times> status" where
  "mon_backtrace k fuel argv =
     (let (walk, st) = backtrace_loop k fuel (read_ebp k)
      in (Cprintf ''Stack backtrace:\<newline>'' [] # walk, st))"

fun call :: "handler \<Rightarrow> kernel \<Rightarrow> nat \<Rightarrow> string list \<Rightarrow> event list \<times> status" where
  "call Mon_help = mon_help"
| "call Mon_kerninfo = mon_kerninfo"
| "call Mon_backtrace = mon_backtrace"
| "call Mon_showmappings = mon_showmappings"

subsection \<open>runcmd and monitor\<close>

definition WHITESPACE :: string where
  "WHITESPACE = [CHR 0x09, CHR 0x0D, CHR 0x0A, CHR '' '']"

definition MAXARGS :: nat where
  "MAXARGS = 16"

text \<open>
  \<open>buf\<close> is the text of the line before its terminating NUL, so \<open>*buf == 0\<close> is
  \<open>buf = []\<close>, and for a character of the line \<open>strchr(WHITESPACE, c)\<close> is
  non-null exactly when \<open>c\<close> is one of the four characters.
\<close>

definition strchr :: "string \<Rightarrow> char \<Rightarrow> bool" where
  "strchr s c = (c \<in> set s)"

text \<open>
  The parsing loop \<open>while (1)\<close> of \<open>runcmd\<close>, with \<open>argv\<close> the tokens stored
  so far (\<open>argc = length argv\<close>). \<open>None\<close> is the early return after
  "Too many arguments".
\<close>

function parse_args :: "string \<Rightarrow> string list \<Rightarrow> string list option" where
  "parse_args buf argv =
     (let buf = dropWhile (strchr WHITESPACE) buf in
      if buf = [] then Some argv
      else if length argv = MAXARGS - 1 then None
      else parse_args (dropWhile (\<lambda>c. \<not> strchr WHITESPACE c) buf)
             (argv @ [takeWhile (\<lambda>c. \<not> strchr WHITESPACE c) buf]))"
  by pat_completeness auto
termination
proof (relation "measure (\<lambda>(buf, argv). length buf)")
  show "wf (measure (\<lambda>(buf, argv). length buf))"
    by simp
next
  fix buf :: string and argv :: "string list" and x :: string
  assume x: "x = dropWhile (strchr WHITESPACE) buf" and ne: "x \<noteq> []"
  from ne obtain c cs where xc: "x = c # cs"
    by (cases x) auto
  have "\<not> strchr WHITESPACE c"
    using x xc by (metis hd_dropWhile list.sel(1) ne)
  then have "length (dropWhile (\<lambda>c. \<not> strchr WHITESPACE c) x) \<le> length cs"
    using xc by (simp add: length_dropWhile_le)
  also have "length cs < length x"
    using xc by simp
  also have "length x \<le> length buf"
    using x by (simp add: length_dropWhile_le)
  finally show "((dropWhile (\<lambda>c. \<not> strchr WHITESPACE c) x,
                  argv @ [takeWhile (\<lambda>c. \<not> strchr WHITESPACE c) x]), buf, argv)
                \<in> measure (\<lambda>(buf, argv). length buf)"
    by simp
qed

definition runcmd :: "kernel \<Rightarrow> nat \<Rightarrow> string \<Rightarrow> event list \<times> status" where
  "runcmd k fuel buf =
     (case parse_args buf [] of
        None \<Rightarrow> ([Cprintf ''Too many arguments (max %d)\<newline>'' [I (int MAXARGS)]], Return 0)
      | Some argv \<Rightarrow>
          if length argv = 0 then ([], Return 0)
          else
            (case find (\<lambda>c. hd argv = name c \<or> hd argv = sname c) commands of
               Some c \<Rightarrow> call (func c) k fuel argv
             | None \<Rightarrow> ([Cprintf ''Unknown command '%s'\<newline>'' [S (hd argv)]], Return 0)))"

text \<open>
  The console loop. The input is the sequence of results of \<open>readline\<close>
  (\<open>None\<close> for its null result) that the operator has supplied so far. The loop is
  \<open>Exited\<close> after its \<open>break\<close>, \<open>Reading\<close> when it is blocked in
  \<open>readline\<close> at the end of the input, and \<open>Stopped\<close> inside a handler that did
  not return.
\<close>

datatype console = Exited | Reading | Stopped status

fun monitor_loop :: "kernel \<Rightarrow> nat \<Rightarrow> string option list \<Rightarrow> event list \<times> console" where
  "monitor_loop k fuel [] = ([Readline ''K> ''], Reading)"
| "monitor_loop k fuel (None # later) =
     (let (rest, c) = monitor_loop k fuel later in (Readline ''K> '' # rest, c))"
| "monitor_loop k fuel (Some buf # later) =
     (case runcmd k fuel buf of
        (out, Return r) \<Rightarrow>
          if r < 0 then (Readline ''K> '' # out, Exited)
          else (let (rest, c) = monitor_loop k fuel later
                in (Readline ''K> '' # out @ rest, c))
      | (out, st) \<Rightarrow> (Readline ''K> '' # out, Stopped st))"

definition monitor :: "kernel \<Rightarrow> nat \<Rightarrow> string option list \<Rightarrow> event list \<times> console" where
  "monitor k fuel input =
     (let (rest, c) = monitor_loop k fuel input
      in (Cprintf ''Welcome to the JOS kernel monitor!\<newline>'' [] #
          Cprintf ''Type 'help' for a list of commands.\<newline>'' [] # rest, c))"

subsection \<open>Reading a run\<close>

text \<open>The page-table lookups, the loads, and the console output of a run, in order.\<close>

fun lookups :: "event list \<Rightarrow> (u32 \<times> bool) list" where
  "lookups [] = []"
| "lookups (Pgdir_walk va create # es) = (va, create) # lookups es"
| "lookups (e # es) = lookups es"

fun loads :: "event list \<Rightarrow> u32 list" where
  "loads [] = []"
| "loads (Load a # es) = a # loads es"
| "loads (e # es) = loads es"

fun prints :: "event list \<Rightarrow> (string \<times> arg list) list" where
  "prints [] = []"
| "prints (Cprintf fmt args # es) = (fmt, args) # prints es"
| "prints (e # es) = prints es"

fun readlines :: "event list \<Rightarrow> nat" where
  "readlines [] = 0"
| "readlines (Readline prompt # es) = Suc (readlines es)"
| "readlines (e # es) = readlines es"

text \<open>
  The number of lines of output: the \<open>cprintf\<close> calls whose format ends with a
  newline.
\<close>

definition ends_line :: "string \<Rightarrow> bool" where
  "ends_line fmt = (fmt \<noteq> [] \<and> last fmt = CHR 0x0A)"

definition lines_out :: "event list \<Rightarrow> nat" where
  "lines_out tr = length (filter (\<lambda>(fmt, args). ends_line fmt) (prints tr))"

subsection \<open>A sample kernel\<close>

text \<open>
  Modelled from the spec: \<open>strtol\<close> (lib/string.c) is not in the source under
  study. The spec has an argument parsed "as a base-16 unsigned integer", a
  "trailing character [that] is not valid hex" being the error: digits of the base are
  read from the left, and the text from the first character that is not one is left
  over. It stands for \<open>strtol\<close> in the sample kernel only; the theorems hold for every
  \<open>strtol\<close>.
\<close>

definition digit_of :: "char \<Rightarrow> nat option" where
  "digit_of c =
     (let n = (of_char c :: nat) in
      if 48 \<le> n \<and> n \<le> 57 then Some (n - 48)
      else if 97 \<le> n \<and> n \<le> 122 then Some (n - 97 + 10)
      else if 65 \<le> n \<and> n \<le> 90 then Some (n - 65 + 10)
      else None)"

fun strtol_digits :: "int \<Rightarrow> int \<Rightarrow> string \<Rightarrow> int \<times> string" where
  "strtol_digits base val [] = (val, [])"
| "strtol_digits base val (c # s) =
     (case digit_of c of
        None \<Rightarrow> (val, c # s)
      | Some d \<Rightarrow>
          if int d \<ge> base then (val, c # s)
          else strtol_digits base (val * base + int d) s)"

definition strtol_model :: "string \<Rightarrow> int \<Rightarrow> int \<times> string" where
  "strtol_model s base = strtol_digits base 0 s"

text \<open>
  The sample kernel has the constants of the x86 kernel this monitor belongs to (4 KiB
  pages, the flag bits of an x86 page-table entry, \<open>E_INVAL = 3\<close>), a page directory
  with three entries, of which the second has its present bit clear, and a stack of two
  frames.
\<close>

definition jos_pgdir_walk :: "u32 \<Rightarrow> bool \<Rightarrow> pte_t option" where
  "jos_pgdir_walk va create =
     (if va = 0xF0000000 then Some 0x00000003
      else if va = 0xF0001000 then Some 0x00001002
      else if va = 0xF0003000 then Some 0x00003063
      else None)"

definition jos_mem :: "u32 \<Rightarrow> u32" where
  "jos_mem a =
     (if a = 0xF010FF78 then 0xF010FFD8
      else if a = 0xF010FF7C then 0xF0100068
      else if a = 0xF010FF80 then 5
      else if a = 0xF010FFD8 then 0
      else if a = 0xF010FFDC then 0xF010003E
      else 0)"

definition jos_debuginfo_eip :: "u32 \<Rightarrow> Eipdebuginfo" where
  "jos_debuginfo_eip eip =
     (if eip = 0xF0100068 then
        \<lparr>eip_file = ''kern/init.c'', eip_line = 24, eip_fn_name = ''test_backtrace'',
         eip_fn_namelen = 14, eip_fn_addr = 0xF0100040\<rparr>
      else
        \<lparr>eip_file = ''<unknown>'', eip_line = 0, eip_fn_name = ''<unknown>'',
         eip_fn_namelen = 9, eip_fn_addr = eip\<rparr>)"

definition jos :: kernel where
  "jos =
     \<lparr>PGSIZE = 0x1000, PTE_P = 0x001, PTE_W = 0x002, PTE_U = 0x004, PTE_PWT = 0x008,
      PTE_PCD = 0x010, PTE_A = 0x020, PTE_D = 0x040, PTE_PS = 0x080, PTE_G = 0x100,
      PTE_AVAIL = 0xE00, E_INVAL = 3, KERNBASE = 0xF0000000, strtol = strtol_model,
      pgdir_walk = jos_pgdir_walk, debuginfo_eip = jos_debuginfo_eip,
      read_ebp = 0xF010FF78, mem = jos_mem, sym_start = 0x0010000C,
      sym_entry = 0xF010000C, sym_etext = 0xF0101A75, sym_edata = 0xF0112300,
      sym_end = 0xF0112960\<rparr>"

subsection \<open>Notions of the specification\<close>

text \<open>
  The whitespace-separated tokens of a line, defined without reference to the parsing
  loop: the line is cut at every whitespace character and the empty pieces are dropped.
\<close>

fun fields :: "string \<Rightarrow> string list" where
  "fields [] = [[]]"
| "fields (c # cs) =
     (if strchr WHITESPACE c then [] # fields cs
      else (case fields cs of
              [] \<Rightarrow> [[c]]
            | w # ws \<Rightarrow> (c # w) # ws))"

definition tokens :: "string \<Rightarrow> string list" where
  "tokens buf = filter (\<lambda>w. w \<noteq> []) (fields buf)"

text \<open>
  The Permission Summary: the ten flags in the order of the spec (available, global,
  page-size, dirty, accessed, cache-disable, write-through, user, writable, present),
  each with its short token, and one marker per flag.
\<close>

definition permission_flags :: "kernel \<Rightarrow> (u32 \<times> string) list" where
  "permission_flags k =
     [(PTE_AVAIL k, ''(AVL)''), (PTE_G k, ''(G)''), (PTE_PS k, ''(PS)''), (PTE_D k, ''(D)''),
      (PTE_A k, ''(A)''), (PTE_PCD k, ''(PCD)''), (PTE_PWT k, ''(PWT)''), (PTE_U k, ''(U)''),
      (PTE_W k, ''(W)''), (PTE_P k, ''(P)'')]"

definition permission_summary :: "kernel \<Rightarrow> pte_t \<Rightarrow> string list" where
  "permission_summary k e =
     map (\<lambda>(mask, token). if e AND mask \<noteq> 0 then token else ''-'') (permission_flags k)"

text \<open>
  The report on one page: the lookup, then either the "not mapped" line, when the
  lookup returns no entry or the entry's present flag is clear, or the line with the
  frame address and the line with the Permission Summary.
\<close>

definition unmapped :: "kernel \<Rightarrow> u32 \<Rightarrow> bool" where
  "unmapped k va =
     (case pgdir_walk k va False of None \<Rightarrow> True | Some e \<Rightarrow> e AND PTE_P k = 0)"

definition page_report :: "kernel \<Rightarrow> u32 \<Rightarrow> event list" where
  "page_report k va =
     Pgdir_walk va False #
     (if unmapped k va then [Cprintf ''VA [0x%08x] not mapped.\<newline>'' [U va]]
      else [Cprintf ''VA [0x%08x] mapped at PA [0x%08x], permission: ''
              [U va, U (PTE_ADDR k (the (pgdir_walk k va False)))],
            Cprintf ''%s\<newline>''
              [S (concat (permission_summary k (the (pgdir_walk k va False))))]])"

text \<open>
  A frame-pointer chain: the frames \<open>fs\<close> reached from \<open>ebp\<close> through the saved
  frame pointers, none of them zero, the last one saving the zero terminator. Each frame
  is reported in two lines, from seven loads: the words at offsets 1 to 6, then the
  saved frame pointer at offset 0.
\<close>

fun frame_chain :: "kernel \<Rightarrow> u32 \<Rightarrow> u32 list \<Rightarrow> bool" where
  "frame_chain k ebp [] = (ebp = 0)"
| "frame_chain k ebp (f # fs) = (ebp = f \<and> f \<noteq> 0 \<and> frame_chain k (mem k f) fs)"

definition frame_lines :: "kernel \<Rightarrow> u32 \<Rightarrow> (string \<times> arg list) list" where
  "frame_lines k f =
     [(''  ebp %08x  eip %08x  args %08x %08x %08x %08x %08x\<newline>'',
       [U f, U (mem k (f + 4)), U (mem k (f + 8)), U (mem k (f + 12)), U (mem k (f + 16)),
        U (mem k (f + 20)), U (mem k (f + 24))]),
      (''%s:%d: %.*s+%d\<newline>'',
       [S (eip_file (debuginfo_eip k (mem k (f + 4)))),
        I (eip_line (debuginfo_eip k (mem k (f + 4)))),
        I (eip_fn_namelen (debuginfo_eip k (mem k (f + 4)))),
        S (eip_fn_name (debuginfo_eip k (mem k (f + 4)))),
        U (mem k (f + 4) - eip_fn_addr (debuginfo_eip k (mem k (f + 4))))])]"

definition frame_loads :: "u32 \<Rightarrow> u32 list" where
  "frame_loads f = [f + 4, f + 8, f + 12, f + 16, f + 20, f + 24, f]"

text \<open>
  The page-aligned addresses of a walk: \<open>n\<close> addresses from \<open>start\<close>, one page
  apart, in ascending order as long as the addition does not wrap.
\<close>

definition page_addrs :: "u32 \<Rightarrow> u32 \<Rightarrow> nat \<Rightarrow> u32 list" where
  "page_addrs start pgsize n = map (\<lambda>i. start + of_nat i * pgsize) [0..<n]"

text \<open>
  How a walk over the pages \<open>pages\<close> ends when its loop ends: the handler returns
  0 if none of the pages is mapped, and otherwise it has written the permissions of a
  mapped page past \<open>perm\<close>.
\<close>

definition walk_status :: "kernel \<Rightarrow> u32 list \<Rightarrow> status" where
  "walk_status k pages = (if list_all (unmapped k) pages then Return 0 else Overrun)"

text \<open>
  The malformed invocations of \<open>showmappings\<close> that the spec lists: a non-hex
  character in an address, a wrong number of addresses (here: more than two), and a
  start address above the end address.
\<close>

definition malformed :: "kernel \<Rightarrow> string list \<Rightarrow> bool" where
  "malformed k argv =
     (2 \<le> length argv \<and>
      (snd (strtol k (argv ! 1) 16) \<noteq> [] \<or>
       3 < length argv \<or>
       (length argv = 3 \<and>
        (snd (strtol k (argv ! 2) 16) \<noteq> [] \<or>
         ROUNDDOWN (word_of_int (fst (strtol k (argv ! 1) 16))) (PGSIZE k)
           > word_of_int (fst (strtol k (argv ! 2) 16))))))"

section \<open>Properties\<close>

subsection \<open>Reading a run\<close>

lemma loads_append: "loads (xs @ ys) = loads xs @ loads ys"
  by (induction xs rule: loads.induct) simp_all

lemma lookups_append: "lookups (xs @ ys) = lookups xs @ lookups ys"
  by (induction xs rule: lookups.induct) simp_all

lemma prints_append: "prints (xs @ ys) = prints xs @ prints ys"
  by (induction xs rule: prints.induct) simp_all

lemma get_perm_summary: "get_perm k perm (Some e) = perm @ concat (permission_summary k e)"
  by (simp add: get_perm_def permission_summary_def permission_flags_def strcat_def Let_def)

lemma ROUNDDOWN_div_mult: "ROUNDDOWN a n = a div n * n"
  by (simp add: ROUNDDOWN_def minus_mod_eq_div_mult)

lemma lookups_page_report: "lookups (page_report k va) = [(va, False)]"
  by (simp add: page_report_def)

lemma lookups_concat_page_report:
  "lookups (concat (map (page_report k) pages)) = map (\<lambda>va. (va, False)) pages"
  by (induction pages) (simp_all add: lookups_append lookups_page_report)

lemma page_addrs_Suc:
  "page_addrs start pgsize (Suc n) = start # page_addrs (start + pgsize) pgsize n"
proof -
  have "[0..<Suc n] = 0 # map Suc [0..<n]"
    by (simp add: upt_conv_Cons map_Suc_upt del: upt_Suc)
  then show ?thesis
    by (simp add: page_addrs_def comp_def algebra_simps del: upt_Suc)
qed

lemma permission_summary_overruns: "overruns (concat (permission_summary k e))"
  by (simp add: overruns_def sizeof_perm_def permission_summary_def permission_flags_def)

lemma get_perm_overruns: "overruns (get_perm k [] (Some e))"
  by (simp add: get_perm_summary permission_summary_overruns)

lemma after_overrun_simps:
  "after_overrun (Return r) = Overrun" "after_overrun Fault = Fault"
  "after_overrun Overrun = Overrun" "after_overrun OutOfFuel = OutOfFuel"
  by (simp_all add: after_overrun_def)

lemma walk_status_Nil: "walk_status k [] = Return 0"
  by (simp add: walk_status_def)

lemma walk_status_Cons:
  "walk_status k (va # pages) =
     (if unmapped k va then walk_status k pages else after_overrun (walk_status k pages))"
  by (simp add: walk_status_def after_overrun_simps)

lemma showmappings_loop_step:
  "addr \<le> end_addr \<Longrightarrow>
   showmappings_loop k (Suc fuel) addr end_addr =
     (page_report k addr @ fst (showmappings_loop k fuel (addr + PGSIZE k) end_addr),
      if unmapped k addr then snd (showmappings_loop k fuel (addr + PGSIZE k) end_addr)
      else after_overrun (snd (showmappings_loop k fuel (addr + PGSIZE k) end_addr)))"
  by (simp add: page_report_def unmapped_def get_perm_summary permission_summary_overruns
        Let_def split_beta split: option.splits)

lemma showmappings_loop_done:
  "\<not> addr \<le> end_addr \<Longrightarrow> showmappings_loop k fuel addr end_addr = ([], Return 0)"
  by (cases fuel) simp_all

lemma showmappings_loop_pages:
  "\<exists>n\<le>fuel. fst (showmappings_loop k fuel addr end_addr) =
      concat (map (page_report k) (page_addrs addr (PGSIZE k) n))"
proof (induction fuel arbitrary: addr)
  case 0
  have "fst (showmappings_loop k 0 addr end_addr) = concat (map (page_report k) (page_addrs addr (PGSIZE k) 0))"
    by (simp add: page_addrs_def)
  then show ?case by blast
next
  case (Suc fuel)
  show ?case
  proof (cases "addr \<le> end_addr")
    case True
    from Suc.IH [of "addr + PGSIZE k"] obtain n where n: "n \<le> fuel"
      and tr: "fst (showmappings_loop k fuel (addr + PGSIZE k) end_addr) =
        concat (map (page_report k) (page_addrs (addr + PGSIZE k) (PGSIZE k) n))"
      by blast
    have "fst (showmappings_loop k (Suc fuel) addr end_addr) =
        concat (map (page_report k) (page_addrs addr (PGSIZE k) (Suc n)))"
      by (simp add: showmappings_loop_step [OF True] tr page_addrs_Suc del: showmappings_loop.simps)
    with n show ?thesis
      by (meson Suc_le_mono)
  next
    case False
    have "fst (showmappings_loop k (Suc fuel) addr end_addr) =
        concat (map (page_report k) (page_addrs addr (PGSIZE k) 0))"
      by (simp add: showmappings_loop_done [OF False] page_addrs_def)
    then show ?thesis by blast
  qed
qed

lemma showmappings_single:
  "strtol k a 16 = (v, []) \<Longrightarrow>
   mon_showmappings k fuel [c, a] =
     (page_report k (ROUNDDOWN (word_of_int v) (PGSIZE k)),
      if unmapped k (ROUNDDOWN (word_of_int v) (PGSIZE k)) then Return 0 else Overrun)"
  by (simp add: mon_showmappings_def arg_at_def page_report_def unmapped_def
        get_perm_summary permission_summary_overruns after_overrun_simps
        Let_def split: option.splits)

lemma showmappings_invalid_start:
  "snd (strtol k a 16) \<noteq> [] \<Longrightarrow>
   mon_showmappings k fuel (c # a # others) =
     ([Cprintf ''invalid start address.\<newline>'' []], Return (- E_INVAL k))"
  by (simp add: mon_showmappings_def arg_at_def split_beta)

lemma showmappings_usage:
  "snd (strtol k a 16) = [] \<Longrightarrow> 3 < length (c # a # others) \<Longrightarrow>
   mon_showmappings k fuel (c # a # others) =
     ([Cprintf ''require one or two arguments,\<newline>'' [],
       Cprintf ''i.e., start [and end] address.\<newline>'' []], Return (- E_INVAL k))"
  by (cases others) (auto simp: mon_showmappings_def arg_at_def split_beta Let_def)

lemma showmappings_invalid_end:
  "snd (strtol k a 16) = [] \<Longrightarrow> snd (strtol k b 16) \<noteq> [] \<Longrightarrow>
   mon_showmappings k fuel [c, a, b] =
     ([Cprintf ''invalid start address.\<newline>'' []], Return (- E_INVAL k))"
  by (simp add: mon_showmappings_def arg_at_def split_beta)

lemma showmappings_range:
  "strtol k a 16 = (va, []) \<Longrightarrow> strtol k b 16 = (vb, []) \<Longrightarrow>
   mon_showmappings k fuel [c, a, b] =
     (if ROUNDDOWN (word_of_int va) (PGSIZE k) > word_of_int vb then
        ([Cprintf ''start address higher than end address\<newline>'' []], Return (- E_INVAL k))
      else
        ([Cprintf ''%x round up to '' [U (word_of_int vb)],
          Cprintf ''%x\<newline>'' [U (ROUNDUP (word_of_int vb) (PGSIZE k))],
          Cprintf ''start_addr:%x, end_addr:%x\<newline>''
            [U (ROUNDDOWN (word_of_int va) (PGSIZE k)), U (ROUNDUP (word_of_int vb) (PGSIZE k))]]
         @ fst (showmappings_loop k fuel (ROUNDDOWN (word_of_int va) (PGSIZE k))
                  (ROUNDUP (word_of_int vb) (PGSIZE k))),
         snd (showmappings_loop k fuel (ROUNDDOWN (word_of_int va) (PGSIZE k))
                  (ROUNDUP (word_of_int vb) (PGSIZE k)))))"
  by (simp add: mon_showmappings_def arg_at_def split_beta Let_def)

subsection \<open>The frame-pointer walk\<close>

lemma backtrace_loop_chain:
  "frame_chain k ebp fs \<Longrightarrow> length fs \<le> fuel \<Longrightarrow>
   snd (backtrace_loop k fuel ebp) = Return 0 \<and>
   prints (fst (backtrace_loop k fuel ebp)) = concat (map (frame_lines k) fs) \<and>
   loads (fst (backtrace_loop k fuel ebp)) = concat (map frame_loads fs)"
proof (induction fs arbitrary: ebp fuel)
  case Nil
  then show ?case by (cases fuel) simp_all
next
  case (Cons f fs)
  then obtain n where fuel: "fuel = Suc n" and n: "length fs \<le> n"
    by (cases fuel) auto
  from Cons.prems have f: "ebp = f" "f \<noteq> 0" and chain: "frame_chain k (mem k f) fs"
    by auto
  from Cons.IH [OF chain n] show ?case
    using f by (simp add: fuel Let_def split_beta frame_lines_def frame_loads_def)
qed

subsection \<open>The parsing loop against the tokens of the line\<close>

declare parse_args.simps [simp del]

lemma fields_not_Nil: "fields s \<noteq> []"
  by (cases s) (auto split: list.splits)

lemma fields_split:
  "fields s = (takeWhile (\<lambda>c. \<not> strchr WHITESPACE c) s @ hd (fields (dropWhile (\<lambda>c. \<not> strchr WHITESPACE c) s)))
              # tl (fields (dropWhile (\<lambda>c. \<not> strchr WHITESPACE c) s))"
proof (induction s)
  case Nil
  show ?case by simp
next
  case (Cons c cs)
  show ?case
  proof (cases "strchr WHITESPACE c")
    case True
    then show ?thesis by simp
  next
    case False
    then show ?thesis
      using Cons.IH by (simp split: list.splits)
  qed
qed

lemma hd_fields_dropWhile:
  "hd (fields (dropWhile (\<lambda>c. \<not> strchr WHITESPACE c) s)) = []"
proof (cases "dropWhile (\<lambda>c. \<not> strchr WHITESPACE c) s")
  case Nil
  show ?thesis unfolding Nil by simp
next
  case (Cons c cs)
  then have "strchr WHITESPACE c"
    using hd_dropWhile [of "\<lambda>c. \<not> strchr WHITESPACE c" s] by auto
  then show ?thesis using Cons by simp
qed

lemma tokens_split:
  "tokens s =
     (if takeWhile (\<lambda>c. \<not> strchr WHITESPACE c) s = [] then []
      else [takeWhile (\<lambda>c. \<not> strchr WHITESPACE c) s])
     @ tokens (dropWhile (\<lambda>c. \<not> strchr WHITESPACE c) s)"
proof -
  let ?r = "dropWhile (\<lambda>c. \<not> strchr WHITESPACE c) s"
  have r: "fields ?r = [] # tl (fields ?r)"
    using hd_fields_dropWhile [of s] fields_not_Nil [of ?r] by (cases "fields ?r") auto
  have "tokens ?r = filter (\<lambda>w. w \<noteq> []) (tl (fields ?r))"
    unfolding tokens_def by (subst r) simp
  moreover have "tokens s = filter (\<lambda>w. w \<noteq> [])
      (takeWhile (\<lambda>c. \<not> strchr WHITESPACE c) s # tl (fields ?r))"
    unfolding tokens_def by (subst fields_split) (simp add: hd_fields_dropWhile)
  ultimately show ?thesis by simp
qed

lemma tokens_dropWhile_ws: "tokens (dropWhile (strchr WHITESPACE) s) = tokens s"
  by (induction s) (auto simp: tokens_def)

lemma tokens_Nil: "tokens [] = []"
  by (simp add: tokens_def)

lemma tokens_step:
  assumes "dropWhile (strchr WHITESPACE) buf \<noteq> []"
  shows "tokens buf =
     takeWhile (\<lambda>c. \<not> strchr WHITESPACE c) (dropWhile (strchr WHITESPACE) buf)
     # tokens (dropWhile (\<lambda>c. \<not> strchr WHITESPACE c) (dropWhile (strchr WHITESPACE) buf))"
proof -
  let ?b = "dropWhile (strchr WHITESPACE) buf"
  from assms obtain c cs where b: "?b = c # cs" by (cases ?b) auto
  then have "\<not> strchr WHITESPACE c"
    using hd_dropWhile [of "strchr WHITESPACE" buf] by auto
  then have "takeWhile (\<lambda>c. \<not> strchr WHITESPACE c) ?b \<noteq> []"
    using b by simp
  then have "tokens ?b = takeWhile (\<lambda>c. \<not> strchr WHITESPACE c) ?b
      # tokens (dropWhile (\<lambda>c. \<not> strchr WHITESPACE c) ?b)"
    by (subst tokens_split) simp
  then show ?thesis by (simp add: tokens_dropWhile_ws)
qed

lemma tokens_done:
  assumes "dropWhile (strchr WHITESPACE) buf = []"
  shows "tokens buf = []"
  using tokens_dropWhile_ws [of buf] assms by (simp add: tokens_Nil)

lemma parse_args_tokens:
  "length argv \<le> MAXARGS - 1 \<Longrightarrow>
   parse_args buf argv =
     (if length argv + length (tokens buf) \<le> MAXARGS - 1 then Some (argv @ tokens buf) else None)"
proof (induction buf argv rule: parse_args.induct)
  case (1 buf argv)
  let ?b = "dropWhile (strchr WHITESPACE) buf"
  show ?case
  proof (cases "?b = []")
    case True
    then show ?thesis
      using "1.prems" by (subst parse_args.simps) (simp add: tokens_done Let_def del: dropWhile_eq_Nil_conv)
  next
    case False
    note ne = this
    show ?thesis
    proof (cases "length argv = MAXARGS - 1")
      case True
      then show ?thesis
        using ne "1.prems" by (subst parse_args.simps) (simp add: tokens_step Let_def del: dropWhile_eq_Nil_conv)
    next
      case False
      then have "length (argv @ [takeWhile (\<lambda>c. \<not> strchr WHITESPACE c) ?b]) \<le> MAXARGS - 1"
        using "1.prems" by simp
      from "1.IH" [OF refl ne False this] show ?thesis
        using ne False by (subst parse_args.simps) (simp add: tokens_step [OF ne] Let_def del: dropWhile_eq_Nil_conv)
    qed
  qed
qed

section \<open>The claims\<close>

subsection \<open>showmappings without an address\<close>

text \<open>
  C2 says that \<open>showmappings\<close> with no address argument (\<open>argc == 1\<close>) reports a
  usage error and returns a non-fatal status without reading any address argument. The
  code does not: its first statement is \<open>strtol(argv[1], &endptr, 16)\<close>, before any
  test of \<open>argc\<close>, and with \<open>argc == 1\<close> the argument \<open>argv[1]\<close> is the null
  pointer that \<open>runcmd\<close> stored behind the last token. For every kernel the run ends
  in \<open>strtol\<close> reading through the null pointer, with nothing printed; the usage
  message of the handler is reached only with three or more addresses.
\<close>

theorem showmappings_without_address_reads_null:
  "mon_showmappings k fuel [c] = ([], Fault) \<and>
   runcmd k fuel ''showmappings'' = ([], Fault)"
proof -
  have "tokens ''showmappings'' = [''showmappings'']"
    by (simp add: tokens_def strchr_def WHITESPACE_def)
  then have "parse_args ''showmappings'' [] = Some [''showmappings'']"
    using parse_args_tokens [of "[]" "''showmappings''"] by (simp add: MAXARGS_def)
  then show ?thesis
    by (simp add: runcmd_def commands_def mon_showmappings_def arg_at_def)
qed

subsection \<open>The Permission Summary\<close>

text \<open>
  C7: for a non-null entry pointer \<open>get_perm\<close> appends to the buffer the Permission
  Summary of the entry, which depends on the entry's bits only: ten markers in the
  order available, global, page-size, dirty, accessed, cache-disable, write-through,
  user, writable, present, each the flag's token when the entry has a bit of the flag's
  mask and the placeholder \<open>-\<close> otherwise. For an entry in which the present and
  writable flags are the only ones set, the summary marks these two and shows the
  placeholder for the other eight.
\<close>

theorem get_perm_renders_permission_summary:
  "get_perm k perm (Some e) = perm @ concat (permission_summary k e) \<and>
   length (permission_summary k e) = 10 \<and>
   permission_summary k e =
     map (\<lambda>(mask, token). if e AND mask \<noteq> 0 then token else ''-'')
       [(PTE_AVAIL k, ''(AVL)''), (PTE_G k, ''(G)''), (PTE_PS k, ''(PS)''), (PTE_D k, ''(D)''),
        (PTE_A k, ''(A)''), (PTE_PCD k, ''(PCD)''), (PTE_PWT k, ''(PWT)''), (PTE_U k, ''(U)''),
        (PTE_W k, ''(W)''), (PTE_P k, ''(P)'')] \<and>
   (e AND PTE_P k \<noteq> 0 \<and> e AND PTE_W k \<noteq> 0 \<and> e AND PTE_AVAIL k = 0 \<and> e AND PTE_G k = 0 \<and>
    e AND PTE_PS k = 0 \<and> e AND PTE_D k = 0 \<and> e AND PTE_A k = 0 \<and> e AND PTE_PCD k = 0 \<and>
    e AND PTE_PWT k = 0 \<and> e AND PTE_U k = 0 \<longrightarrow>
    permission_summary k e = [''-'', ''-'', ''-'', ''-'', ''-'', ''-'', ''-'', ''-'', ''(W)'', ''(P)''] \<and>
    get_perm k [] (Some e) = ''--------(W)(P)'')"
  by (simp add: get_perm_summary permission_summary_def permission_flags_def)

text \<open>
  The entry \<open>0x003\<close> of the sample kernel has the present and writable bits only.
\<close>

theorem get_perm_renders_permission_summary_witness:
  "(3 :: u32) AND PTE_P jos \<noteq> 0 \<and> 3 AND PTE_W jos \<noteq> 0 \<and> 3 AND PTE_AVAIL jos = 0 \<and>
   3 AND PTE_G jos = 0 \<and> 3 AND PTE_PS jos = 0 \<and> 3 AND PTE_D jos = 0 \<and> 3 AND PTE_A jos = 0 \<and>
   3 AND PTE_PCD jos = 0 \<and> 3 AND PTE_PWT jos = 0 \<and> 3 AND PTE_U jos = 0 \<and>
   get_perm jos [] (Some 3) = ''--------(W)(P)'' \<and>
   get_perm jos [] (Some 0x3063) = ''---(D)(A)---(W)(P)''"
  using get_perm_renders_permission_summary [of jos "[]" 3]
    get_perm_renders_permission_summary [of jos "[]" "0x3063"]
  by (simp add: jos_def)

subsection \<open>The stack unwinder\<close>

text \<open>
  C9: when the frame pointer on entry starts a chain of \<open>K\<close> frames that ends in the
  zero terminator, \<open>backtrace\<close> (given fuel for \<open>K\<close> iterations) returns 0
  after printing its heading and, for each frame in order, two lines: one with the frame
  pointer, the return address loaded at word offset 1 and the five argument words loaded
  at word offsets 2 to 6, and one with the source location, the function name and the
  offset \<open>return address - function start\<close>. These are \<open>2 * K\<close> lines for the
  \<open>K\<close> frames. The loads of the run are the seven loads of each frame of the chain,
  and no frame of the chain is the zero terminator: nothing is loaded through it.
\<close>

theorem backtrace_reports_each_frame:
  assumes "frame_chain k (read_ebp k) fs" and "length fs \<le> fuel"
  shows "snd (mon_backtrace k fuel argv) = Return 0 \<and>
         prints (fst (mon_backtrace k fuel argv)) =
           (''Stack backtrace:\<newline>'', []) # concat (map (frame_lines k) fs) \<and>
         length (concat (map (frame_lines k) fs)) = 2 * length fs \<and>
         loads (fst (mon_backtrace k fuel argv)) = concat (map frame_loads fs) \<and>
         0 \<notin> set fs"
proof -
  have "length (concat (map (frame_lines k) gs)) = 2 * length gs" for gs
    by (induction gs) (simp_all add: frame_lines_def)
  moreover have "frame_chain k e gs \<Longrightarrow> 0 \<notin> set gs" for e gs
    by (induction gs arbitrary: e) auto
  ultimately show ?thesis
    using backtrace_loop_chain [OF assms] assms(1)
    by (simp add: mon_backtrace_def split_beta)
qed

text \<open>The stack of the sample kernel has two frames.\<close>

theorem backtrace_reports_each_frame_witness:
  "frame_chain jos (read_ebp jos) [0xF010FF78, 0xF010FFD8] \<and>
   snd (mon_backtrace jos 2 [''backtrace'']) = Return 0 \<and>
   prints (fst (mon_backtrace jos 2 [''backtrace''])) =
     [(''Stack backtrace:\<newline>'', []),
      (''  ebp %08x  eip %08x  args %08x %08x %08x %08x %08x\<newline>'',
       [U 0xF010FF78, U 0xF0100068, U 5, U 0, U 0, U 0, U 0]),
      (''%s:%d: %.*s+%d\<newline>'', [S ''kern/init.c'', I 24, I 14, S ''test_backtrace'', U 40]),
      (''  ebp %08x  eip %08x  args %08x %08x %08x %08x %08x\<newline>'',
       [U 0xF010FFD8, U 0xF010003E, U 0, U 0, U 0, U 0, U 0]),
      (''%s:%d: %.*s+%d\<newline>'', [S ''<unknown>'', I 0, I 9, S ''<unknown>'', U 0])]"
proof -
  have chain: "frame_chain jos (read_ebp jos) [0xF010FF78, 0xF010FFD8]"
    by (simp add: jos_def jos_mem_def)
  have fuel: "length [0xF010FF78, 0xF010FFD8 :: u32] \<le> 2"
    by simp
  show ?thesis
    using chain backtrace_reports_each_frame [OF chain fuel, of "[''backtrace'']"]
    by (simp add: frame_lines_def jos_def jos_mem_def jos_debuginfo_eip_def)
qed

subsection \<open>The argument limit of the dispatcher\<close>

text \<open>
  C10: \<open>runcmd\<close> stores at most \<open>MAXARGS - 1 = 15\<close> tokens. A line of at most
  15 whitespace-separated tokens is parsed into exactly these tokens, and the command
  named by the first one is called with all of them. A line with a 16th token is
  discarded: the only output is the message "Too many arguments (max %d)" with the
  argument 16 (one more than the 15 tokens that are accepted), no command is called,
  and \<open>runcmd\<close> returns 0.
\<close>

theorem runcmd_accepts_fifteen_tokens:
  "MAXARGS - 1 = 15 \<and>
   (length (tokens buf) \<le> 15 \<longrightarrow> parse_args buf [] = Some (tokens buf)) \<and>
   (length (tokens buf) \<le> 15 \<and> tokens buf \<noteq> [] \<and>
      find (\<lambda>c. hd (tokens buf) = name c \<or> hd (tokens buf) = sname c) commands = Some c \<longrightarrow>
      runcmd k fuel buf = call (func c) k fuel (tokens buf)) \<and>
   (15 < length (tokens buf) \<longrightarrow>
      parse_args buf [] = None \<and>
      runcmd k fuel buf = ([Cprintf ''Too many arguments (max %d)\<newline>'' [I 16]], Return 0))"
  using parse_args_tokens [of "[]" buf]
  by (auto simp: runcmd_def MAXARGS_def)

text \<open>A line of 15 tokens and a line of 16 tokens.\<close>

theorem runcmd_accepts_fifteen_tokens_witness:
  "length (tokens ''sm 1000 2000 3000 4000 5000 6000 7000 8000 9000 a000 b000 c000 d000 e000'') \<le> 15 \<and>
   parse_args ''sm 1000 2000 3000 4000 5000 6000 7000 8000 9000 a000 b000 c000 d000 e000'' [] =
     Some [''sm'', ''1000'', ''2000'', ''3000'', ''4000'', ''5000'', ''6000'', ''7000'',
           ''8000'', ''9000'', ''a000'', ''b000'', ''c000'', ''d000'', ''e000''] \<and>
   runcmd jos 0 ''sm 1000 2000 3000 4000 5000 6000 7000 8000 9000 a000 b000 c000 d000 e000'' =
     mon_showmappings jos 0
       [''sm'', ''1000'', ''2000'', ''3000'', ''4000'', ''5000'', ''6000'', ''7000'',
        ''8000'', ''9000'', ''a000'', ''b000'', ''c000'', ''d000'', ''e000''] \<and>
   15 < length (tokens ''sm 1000 2000 3000 4000 5000 6000 7000 8000 9000 a000 b000 c000 d000 e000 f000'') \<and>
   runcmd jos 0 ''sm 1000 2000 3000 4000 5000 6000 7000 8000 9000 a000 b000 c000 d000 e000 f000'' =
     ([Cprintf ''Too many arguments (max %d)\<newline>'' [I 16]], Return 0)"
proof -
  have t15: "tokens ''sm 1000 2000 3000 4000 5000 6000 7000 8000 9000 a000 b000 c000 d000 e000'' =
     [''sm'', ''1000'', ''2000'', ''3000'', ''4000'', ''5000'', ''6000'', ''7000'',
      ''8000'', ''9000'', ''a000'', ''b000'', ''c000'', ''d000'', ''e000'']"
    by (simp add: tokens_def strchr_def WHITESPACE_def)
  have t16: "tokens ''sm 1000 2000 3000 4000 5000 6000 7000 8000 9000 a000 b000 c000 d000 e000 f000'' =
     [''sm'', ''1000'', ''2000'', ''3000'', ''4000'', ''5000'', ''6000'', ''7000'',
      ''8000'', ''9000'', ''a000'', ''b000'', ''c000'', ''d000'', ''e000'', ''f000'']"
    by (simp add: tokens_def strchr_def WHITESPACE_def)
  have f: "find (\<lambda>c. ''sm'' = name c \<or> ''sm'' = sname c) commands = Some (commands ! 3)"
    by (simp add: commands_def)
  show ?thesis
    using runcmd_accepts_fifteen_tokens
            [of "''sm 1000 2000 3000 4000 5000 6000 7000 8000 9000 a000 b000 c000 d000 e000''" "commands ! 3" jos 0]
          runcmd_accepts_fifteen_tokens
            [of "''sm 1000 2000 3000 4000 5000 6000 7000 8000 9000 a000 b000 c000 d000 e000 f000''" "commands ! 3" jos 0]
    by (simp add: t15 t16 f) (simp add: commands_def)
qed

subsection \<open>Evaluating the sample kernel\<close>

lemmas jos_eval = jos_def jos_pgdir_walk_def jos_mem_def jos_debuginfo_eip_def strtol_model_def
  digit_of_def arg_at_def ROUNDDOWN_def ROUNDUP_def

subsection \<open>One address: rounding down, and the invalid start address\<close>

text \<open>
  C6: when \<open>strtol\<close> accepts the whole of the single address argument,
  \<open>showmappings\<close> looks up and reports the address rounded down to its page
  boundary (page number times page size), so two addresses with the same page number
  give the same run: the same lookup and the same reported virtual address. The
  handler returns 0 when that page is not mapped; when it is mapped the permissions
  have been written past \<open>perm\<close> and the run ends in \<open>Overrun\<close>. When
  \<open>strtol\<close> stops before the end of the first argument (\<open>endptr\<close> is left on a
  character that is not a hex digit), the handler prints "invalid start address." and
  returns \<open>-E_INVAL\<close> without any lookup, whatever arguments follow.
\<close>

theorem showmappings_rounds_start_down:
  "(strtol k a 16 = (va, []) \<longrightarrow>
      fst (mon_showmappings k fuel [c, a]) =
        page_report k (word_of_int va div PGSIZE k * PGSIZE k) \<and>
      snd (mon_showmappings k fuel [c, a]) =
        (if unmapped k (word_of_int va div PGSIZE k * PGSIZE k) then Return 0 else Overrun) \<and>
      lookups (fst (mon_showmappings k fuel [c, a])) =
        [(word_of_int va div PGSIZE k * PGSIZE k, False)]) \<and>
   (strtol k a 16 = (va, []) \<and> strtol k b 16 = (vb, []) \<and>
    (word_of_int va :: u32) div PGSIZE k = word_of_int vb div PGSIZE k \<longrightarrow>
      mon_showmappings k fuel [c, a] = mon_showmappings k fuel [c, b]) \<and>
   (snd (strtol k a 16) \<noteq> [] \<longrightarrow>
      mon_showmappings k fuel (c # a # others) =
        ([Cprintf ''invalid start address.\<newline>'' []], Return (- E_INVAL k)) \<and>
      lookups (fst (mon_showmappings k fuel (c # a # others))) = [])"
  by (simp add: showmappings_single showmappings_invalid_start ROUNDDOWN_div_mult
        lookups_page_report)

text \<open>
  One byte into the mapped page at \<open>0xf0000000\<close> and one byte before the next page;
  one byte into the page at \<open>0xf0002000\<close>, which is not mapped; and the argument
  \<open>10g0\<close>.
\<close>

theorem showmappings_rounds_start_down_witness:
  "strtol jos ''f0000001'' 16 = (0xF0000001, []) \<and>
   strtol jos ''f0000fff'' 16 = (0xF0000FFF, []) \<and>
   (0xF0000001 :: u32) div PGSIZE jos = 0xF0000FFF div PGSIZE jos \<and>
   mon_showmappings jos 0 [''sm'', ''f0000001''] = mon_showmappings jos 0 [''sm'', ''f0000fff''] \<and>
   mon_showmappings jos 0 [''sm'', ''f0000001''] = (page_report jos 0xF0000000, Overrun) \<and>
   strtol jos ''f0002001'' 16 = (0xF0002001, []) \<and>
   mon_showmappings jos 0 [''sm'', ''f0002001''] = (page_report jos 0xF0002000, Return 0) \<and>
   snd (strtol jos ''10g0'' 16) \<noteq> [] \<and>
   mon_showmappings jos 0 [''sm'', ''10g0''] =
     ([Cprintf ''invalid start address.\<newline>'' []], Return (- 3))"
proof -
  have a: "strtol jos ''f0000001'' 16 = (0xF0000001, [])"
    by (simp add: jos_def strtol_model_def digit_of_def)
  have b: "strtol jos ''f0000fff'' 16 = (0xF0000FFF, [])"
    by (simp add: jos_def strtol_model_def digit_of_def)
  have d: "strtol jos ''f0002001'' 16 = (0xF0002001, [])"
    by (simp add: jos_def strtol_model_def digit_of_def)
  have x: "strtol jos ''10g0'' 16 = (16, ''g0'')"
    by (simp add: jos_def strtol_model_def digit_of_def)
  have p: "PGSIZE jos = 0x1000"
    by (simp add: jos_def)
  have q: "(0xF0000001 :: u32) div 0x1000 = 0xF0000" "(0xF0000FFF :: u32) div 0x1000 = 0xF0000"
    "(0xF0002001 :: u32) div 0x1000 = 0xF0002"
    by simp_all
  have u: "\<not> unmapped jos 0xF0000000" "unmapped jos 0xF0002000"
    by (simp_all add: unmapped_def jos_def jos_pgdir_walk_def)
  have e: "E_INVAL jos = 3"
    by (simp add: jos_def)
  show ?thesis
    using showmappings_rounds_start_down
            [of jos "''f0000001''" "0xF0000001" 0 "''sm''" "''f0000fff''" "0xF0000FFF" "[]"]
          showmappings_rounds_start_down
            [of jos "''f0002001''" "0xF0002001" 0 "''sm''" "''f0000fff''" "0xF0000FFF" "[]"]
          showmappings_rounds_start_down
            [of jos "''10g0''" 16 0 "''sm''" "''f0000fff''" "0xF0000FFF" "[]"]
    by (auto simp: a b d x p q u e prod_eq_iff)
qed

subsection \<open>The lookups of showmappings\<close>

lemma mon_showmappings_trace:
  "\<exists>hdr pages. fst (mon_showmappings k fuel argv) = hdr @ concat (map (page_report k) pages) \<and>
     lookups hdr = []"
proof -
  have prints_only: ?thesis if "lookups (fst (mon_showmappings k fuel argv)) = []"
  proof -
    have "fst (mon_showmappings k fuel argv) =
        fst (mon_showmappings k fuel argv) @ concat (map (page_report k) [])"
      by simp
    with that show ?thesis by blast
  qed
  show ?thesis
  proof (cases argv)
    case Nil
    then show ?thesis
      by (intro prints_only) (simp add: mon_showmappings_def arg_at_def)
  next
    case (Cons c rest)
    show ?thesis
    proof (cases rest)
      case Nil
      then show ?thesis
        using Cons by (intro prints_only) (simp add: mon_showmappings_def arg_at_def)
    next
      case (Cons a others)
      note argv = \<open>argv = c # rest\<close> Cons
      obtain va ra where a: "strtol k a 16 = (va, ra)"
        by (cases "strtol k a 16")
      show ?thesis
      proof (cases "ra = []")
        case False
        then show ?thesis
          using a argv by (intro prints_only) (simp add: showmappings_invalid_start)
      next
        case True
        note ra = this
        show ?thesis
        proof (cases others)
          case Nil
          have "fst (mon_showmappings k fuel argv) =
              [] @ concat (map (page_report k) [ROUNDDOWN (word_of_int va) (PGSIZE k)])"
            using a ra argv Nil by (simp add: showmappings_single)
          then show ?thesis
            by (metis lookups.simps(1))
        next
          case (Cons b others')
          show ?thesis
          proof (cases others')
            case (Cons x xs)
            then show ?thesis
              using a ra argv \<open>others = b # others'\<close>
              by (intro prints_only) (simp add: showmappings_usage)
          next
            case Nil
            note argv3 = argv \<open>others = b # others'\<close> Nil
            obtain vb rb where b: "strtol k b 16 = (vb, rb)"
              by (cases "strtol k b 16")
            show ?thesis
            proof (cases "rb = []")
              case False
              then show ?thesis
                using a ra b argv3 by (intro prints_only) (simp add: showmappings_invalid_end)
            next
              case True
              show ?thesis
              proof (cases "ROUNDDOWN (word_of_int va) (PGSIZE k) > word_of_int vb")
                case True
                then show ?thesis
                  using a ra b \<open>rb = []\<close> argv3
                  by (intro prints_only) (simp add: showmappings_range)
              next
                case False
                obtain n where
                  "fst (showmappings_loop k fuel (ROUNDDOWN (word_of_int va) (PGSIZE k))
                      (ROUNDUP (word_of_int vb) (PGSIZE k))) =
                   concat (map (page_report k)
                     (page_addrs (ROUNDDOWN (word_of_int va) (PGSIZE k)) (PGSIZE k) n))"
                  using showmappings_loop_pages by blast
                then have "fst (mon_showmappings k fuel argv) =
                    [Cprintf ''%x round up to '' [U (word_of_int vb)],
                     Cprintf ''%x\<newline>'' [U (ROUNDUP (word_of_int vb) (PGSIZE k))],
                     Cprintf ''start_addr:%x, end_addr:%x\<newline>''
                       [U (ROUNDDOWN (word_of_int va) (PGSIZE k)),
                        U (ROUNDUP (word_of_int vb) (PGSIZE k))]]
                    @ concat (map (page_report k)
                        (page_addrs (ROUNDDOWN (word_of_int va) (PGSIZE k)) (PGSIZE k) n))"
                  using a ra b \<open>rb = []\<close> argv3 False by (simp add: showmappings_range)
                moreover have "lookups
                    [Cprintf ''%x round up to '' [U (word_of_int vb)],
                     Cprintf ''%x\<newline>'' [U (ROUNDUP (word_of_int vb) (PGSIZE k))],
                     Cprintf ''start_addr:%x, end_addr:%x\<newline>''
                       [U (ROUNDDOWN (word_of_int va) (PGSIZE k)),
                        U (ROUNDUP (word_of_int vb) (PGSIZE k))]] = []"
                  by simp
                ultimately show ?thesis by blast
              qed
            qed
          qed
        qed
      qed
    qed
  qed
qed

lemma PTE_ADDR_masks: "PTE_ADDR k e AND PTE_FLAGS k = 0 \<and> PTE_ADDR k e OR (e AND PTE_FLAGS k) = e"
  by (simp add: PTE_ADDR_def bit_eq_iff bit_and_iff bit_or_iff bit_not_iff) blast

text \<open>
  C8: every run of \<open>showmappings\<close> consists of output without lookups followed by
  page reports, so every lookup of the run is the lookup of a page report and passes
  \<open>create = 0\<close>. A page report prints the "not mapped" line exactly when the lookup
  returns the null pointer or an entry whose present flag is clear; otherwise it prints
  the address \<open>PTE_ADDR\<close> of the entry, in which every attribute flag bit is cleared
  and every other bit of the entry is kept, followed by the permissions that
  \<open>get_perm\<close> renders.
\<close>

theorem showmappings_lookups_never_create:
  "(\<exists>hdr pages. fst (mon_showmappings k fuel argv) = hdr @ concat (map (page_report k) pages) \<and>
      lookups hdr = []) \<and>
   list_all (\<lambda>(va, create). create = False) (lookups (fst (mon_showmappings k fuel argv))) \<and>
   lookups (page_report k va) = [(va, False)] \<and>
   ((prints (page_report k va) = [(''VA [0x%08x] not mapped.\<newline>'', [U va])]) =
      (pgdir_walk k va False = None \<or>
       (\<exists>e. pgdir_walk k va False = Some e \<and> e AND PTE_P k = 0))) \<and>
   (pgdir_walk k va False = Some e \<and> e AND PTE_P k \<noteq> 0 \<longrightarrow>
      prints (page_report k va) =
        [(''VA [0x%08x] mapped at PA [0x%08x], permission: '', [U va, U (PTE_ADDR k e)]),
         (''%s\<newline>'', [S (get_perm k [] (Some e))])]) \<and>
   PTE_ADDR k e AND PTE_FLAGS k = 0 \<and> PTE_ADDR k e OR (e AND PTE_FLAGS k) = e"
proof -
  obtain hdr pages where tr:
    "fst (mon_showmappings k fuel argv) = hdr @ concat (map (page_report k) pages)"
    "lookups hdr = []"
    using mon_showmappings_trace by blast
  then have "lookups (fst (mon_showmappings k fuel argv)) = map (\<lambda>va. (va, False)) pages"
    by (simp add: lookups_append lookups_concat_page_report)
  then have "list_all (\<lambda>(va, create). create = False) (lookups (fst (mon_showmappings k fuel argv)))"
    by (simp add: list_all_iff)
  moreover have "(prints (page_report k va) = [(''VA [0x%08x] not mapped.\<newline>'', [U va])]) =
      (pgdir_walk k va False = None \<or>
       (\<exists>e. pgdir_walk k va False = Some e \<and> e AND PTE_P k = 0))"
    by (auto simp: page_report_def unmapped_def split: option.splits)
  moreover have "pgdir_walk k va False = Some e \<and> e AND PTE_P k \<noteq> 0 \<longrightarrow>
      prints (page_report k va) =
        [(''VA [0x%08x] mapped at PA [0x%08x], permission: '', [U va, U (PTE_ADDR k e)]),
         (''%s\<newline>'', [S (get_perm k [] (Some e))])]"
    by (simp add: page_report_def unmapped_def get_perm_summary)
  ultimately show ?thesis
    using tr PTE_ADDR_masks [of k e] by (simp add: lookups_page_report) blast
qed

text \<open>
  A range over a mapped page, a page whose entry is not present, and a page without
  entry.
\<close>

theorem showmappings_lookups_never_create_witness:
  "lookups (fst (mon_showmappings jos 3 [''sm'', ''f0000000'', ''f0001234''])) =
     [(0xF0000000, False), (0xF0001000, False), (0xF0002000, False)] \<and>
   pgdir_walk jos 0xF0000000 False = Some 3 \<and> 3 AND PTE_P jos \<noteq> 0 \<and>
   prints (page_report jos 0xF0000000) =
     [(''VA [0x%08x] mapped at PA [0x%08x], permission: '', [U 0xF0000000, U 0]),
      (''%s\<newline>'', [S ''--------(W)(P)''])] \<and>
   pgdir_walk jos 0xF0001000 False = Some 0x1002 \<and> 0x1002 AND PTE_P jos = 0 \<and>
   prints (page_report jos 0xF0001000) = [(''VA [0x%08x] not mapped.\<newline>'', [U 0xF0001000])] \<and>
   pgdir_walk jos 0xF0002000 False = None \<and>
   prints (page_report jos 0xF0002000) = [(''VA [0x%08x] not mapped.\<newline>'', [U 0xF0002000])] \<and>
   PTE_ADDR jos 0x3063 = 0x3000"
proof -
  have run: "lookups (fst (mon_showmappings jos 3 [''sm'', ''f0000000'', ''f0001234''])) =
     [(0xF0000000, False), (0xF0001000, False), (0xF0002000, False)]"
    by (simp add: mon_showmappings_def jos_eval Let_def numeral_3_eq_3)
  have w: "pgdir_walk jos 0xF0000000 False = Some 3" "(3 :: u32) AND PTE_P jos \<noteq> 0"
    "pgdir_walk jos 0xF0001000 False = Some 0x1002" "(0x1002 :: u32) AND PTE_P jos = 0"
    "pgdir_walk jos 0xF0002000 False = None"
    by (simp_all add: jos_eval)
  have p: "get_perm jos [] (Some 3) = ''--------(W)(P)''" "PTE_ADDR jos 3 = 0"
    "PTE_ADDR jos 0x3063 = 0x3000"
    by (simp_all add: get_perm_summary permission_summary_def permission_flags_def
          PTE_ADDR_def PTE_FLAGS_def jos_def)
  show ?thesis
    using showmappings_lookups_never_create
            [of jos 3 "[''sm'', ''f0000000'', ''f0001234'']" "0xF0000000" 3]
          showmappings_lookups_never_create
            [of jos 3 "[''sm'', ''f0000000'', ''f0001234'']" "0xF0001000" "0x1002"]
          showmappings_lookups_never_create
            [of jos 3 "[''sm'', ''f0000000'', ''f0001234'']" "0xF0002000" "0x3063"]
    by (simp add: run w p)
qed

subsection \<open>Start above end\<close>

text \<open>
  C3 says that a two-address call is rejected exactly when the start rounded down
  exceeds the end rounded up, the comparison coming after the rounding of the end. In
  the code the comparison \<open>start_addr > end_addr\<close> comes first (under the comment
  "start_addr <= end_addr") and \<open>ROUNDUP\<close> is applied to the end afterwards. With
  the start \<open>0x1000\<close> and the end \<open>0xfff\<close> the call is rejected, although the
  end rounds up to \<open>0x1000\<close>, which the start does not exceed.
\<close>

theorem showmappings_compares_after_rounding_up_counterexample:
  "mon_showmappings jos 0 [''showmappings'', ''1000'', ''fff''] =
     ([Cprintf ''start address higher than end address\<newline>'' []], Return (- E_INVAL jos)) \<and>
   lookups (fst (mon_showmappings jos 0 [''showmappings'', ''1000'', ''fff''])) = [] \<and>
   \<not> (ROUNDDOWN 0x1000 (PGSIZE jos) > ROUNDUP 0xFFF (PGSIZE jos))"
  by (simp add: mon_showmappings_def jos_eval)

text \<open>
  C3 as amended: with both arguments accepted by \<open>strtol\<close>, the call is rejected,
  with the report "start address higher than end address", the status \<open>-E_INVAL\<close>
  and no lookup, exactly when the start rounded down exceeds the end as parsed. Otherwise
  the end is rounded up after the comparison, and the walk runs from the rounded start
  to the rounded end.
\<close>

theorem showmappings_compares_before_rounding_up:
  "strtol k a 16 = (va, []) \<and> strtol k b 16 = (vb, []) \<longrightarrow>
     ((mon_showmappings k fuel [c, a, b] =
         ([Cprintf ''start address higher than end address\<newline>'' []], Return (- E_INVAL k))) =
      (ROUNDDOWN (word_of_int va) (PGSIZE k) > word_of_int vb)) \<and>
     (ROUNDDOWN (word_of_int va) (PGSIZE k) > word_of_int vb \<longrightarrow>
        lookups (fst (mon_showmappings k fuel [c, a, b])) = []) \<and>
     (ROUNDDOWN (word_of_int va) (PGSIZE k) \<le> word_of_int vb \<longrightarrow>
        mon_showmappings k fuel [c, a, b] =
          ([Cprintf ''%x round up to '' [U (word_of_int vb)],
            Cprintf ''%x\<newline>'' [U (ROUNDUP (word_of_int vb) (PGSIZE k))],
            Cprintf ''start_addr:%x, end_addr:%x\<newline>''
              [U (ROUNDDOWN (word_of_int va) (PGSIZE k)), U (ROUNDUP (word_of_int vb) (PGSIZE k))]]
           @ fst (showmappings_loop k fuel (ROUNDDOWN (word_of_int va) (PGSIZE k))
                    (ROUNDUP (word_of_int vb) (PGSIZE k))),
           snd (showmappings_loop k fuel (ROUNDDOWN (word_of_int va) (PGSIZE k))
                    (ROUNDUP (word_of_int vb) (PGSIZE k)))))"
  by (auto simp: showmappings_range)

text \<open>A rejected range and an accepted one.\<close>

theorem showmappings_compares_before_rounding_up_witness:
  "strtol jos ''1000'' 16 = (0x1000, []) \<and> strtol jos ''fff'' 16 = (0xFFF, []) \<and>
   ROUNDDOWN 0x1000 (PGSIZE jos) > 0xFFF \<and>
   mon_showmappings jos 0 [''showmappings'', ''1000'', ''fff''] =
     ([Cprintf ''start address higher than end address\<newline>'' []], Return (- 3)) \<and>
   strtol jos ''2345'' 16 = (0x2345, []) \<and>
   ROUNDDOWN 0x1000 (PGSIZE jos) \<le> 0x2345 \<and>
   prints (fst (mon_showmappings jos 0 [''showmappings'', ''1000'', ''2345''])) =
     [(''%x round up to '', [U 0x2345]), (''%x\<newline>'', [U 0x3000]),
      (''start_addr:%x, end_addr:%x\<newline>'', [U 0x1000, U 0x3000])]"
proof -
  have a: "strtol jos ''1000'' 16 = (0x1000, [])" and b: "strtol jos ''fff'' 16 = (0xFFF, [])"
    and b': "strtol jos ''2345'' 16 = (0x2345, [])"
    by (simp_all add: jos_eval)
  have r: "ROUNDDOWN 0x1000 (PGSIZE jos) = 0x1000" "ROUNDUP 0x2345 (PGSIZE jos) = 0x3000"
    "E_INVAL jos = 3"
    by (simp_all add: jos_eval)
  show ?thesis
    using showmappings_compares_before_rounding_up
            [of jos "''1000''" "0x1000" "''fff''" "0xFFF" 0 "''showmappings''"]
          showmappings_compares_before_rounding_up
            [of jos "''1000''" "0x1000" "''2345''" "0x2345" 0 "''showmappings''"]
    by (simp add: a b b' r)
qed

subsection \<open>What ends the console loop\<close>

lemma backtrace_loop_status:
  "snd (backtrace_loop k fuel ebp) = Return 0 \<or> snd (backtrace_loop k fuel ebp) = OutOfFuel"
  by (induction fuel arbitrary: ebp) (simp_all add: Let_def split_beta)

lemma monitor_loop_exit:
  "snd (monitor_loop k fuel input) = Exited \<Longrightarrow>
   \<exists>buf r. Some buf \<in> set input \<and> snd (runcmd k fuel buf) = Return r \<and> r < 0"
proof (induction k fuel input rule: monitor_loop.induct)
  case (1 k fuel)
  then show ?case by simp
next
  case (2 k fuel later)
  then show ?case by (auto simp: split_beta)
next
  case (3 k fuel buf later)
  obtain out st where run: "runcmd k fuel buf = (out, st)"
    by (cases "runcmd k fuel buf")
  show ?case
  proof (cases st)
    case (Return r)
    show ?thesis
    proof (cases "r < 0")
      case True
      then show ?thesis using run Return by auto
    next
      case False
      with "3.IH" [OF run [symmetric] Return False] "3.prems" run Return
      show ?thesis by (auto simp: split_beta)
    qed
  next
    case Fault
    then show ?thesis using "3.prems" run by simp
  next
    case Overrun
    then show ?thesis using "3.prems" run by simp
  next
    case OutOfFuel
    then show ?thesis using "3.prems" run by simp
  qed
qed

lemma monitor_loop_keeps_reading:
  "(\<forall>l\<in>set input. \<forall>buf. l = Some buf \<longrightarrow> (\<exists>r\<ge>0. snd (runcmd k fuel buf) = Return r)) \<Longrightarrow>
   snd (monitor_loop k fuel input) = Reading"
proof (induction k fuel input rule: monitor_loop.induct)
  case (1 k fuel)
  then show ?case by simp
next
  case (2 k fuel later)
  then show ?case by (simp add: split_beta)
next
  case (3 k fuel buf later)
  from "3.prems" obtain r where r: "0 \<le> r" "snd (runcmd k fuel buf) = Return r"
    by auto
  then obtain out where run: "runcmd k fuel buf = (out, Return r)"
    by (cases "runcmd k fuel buf") auto
  have "\<not> r < 0" using r by simp
  from "3.IH" [OF run [symmetric] refl this] "3.prems" run r
  show ?case by (simp add: split_beta)
qed

lemma malformed_showmappings_status:
  assumes "malformed k argv"
  shows "mon_showmappings k fuel argv \<in>
     {([Cprintf ''invalid start address.\<newline>'' []], Return (- E_INVAL k)),
      ([Cprintf ''require one or two arguments,\<newline>'' [],
        Cprintf ''i.e., start [and end] address.\<newline>'' []], Return (- E_INVAL k)),
      ([Cprintf ''start address higher than end address\<newline>'' []], Return (- E_INVAL k))}"
proof -
  from assms obtain c a others where argv: "argv = c # a # others"
    by (cases argv; cases "tl argv") (auto simp: malformed_def)
  show ?thesis
  proof (cases "snd (strtol k a 16) = []")
    case False
    then show ?thesis by (simp add: argv showmappings_invalid_start)
  next
    case True
    note a = this
    show ?thesis
    proof (cases "3 < length argv")
      case True
      then show ?thesis using a argv by (simp add: showmappings_usage)
    next
      case False
      with assms a argv obtain b where others: "others = [b]"
        by (cases others; cases "tl others") (auto simp: malformed_def)
      show ?thesis
      proof (cases "snd (strtol k b 16) = []")
        case False
        then show ?thesis using a argv others by (simp add: showmappings_invalid_end)
      next
        case True
        with assms a argv others
        have "ROUNDDOWN (word_of_int (fst (strtol k a 16))) (PGSIZE k)
                > word_of_int (fst (strtol k b 16))"
          by (simp add: malformed_def)
        moreover have "strtol k a 16 = (fst (strtol k a 16), [])"
          "strtol k b 16 = (fst (strtol k b 16), [])"
          using a True by (simp_all add: prod_eq_iff)
        ultimately show ?thesis
          using argv others showmappings_range [of k a _ b _ fuel c] by simp
      qed
    qed
  qed
qed

lemma runcmd_showmappings:
  assumes "length (tokens buf) \<le> 15" and "tokens buf \<noteq> []"
    and "hd (tokens buf) = ''showmappings'' \<or> hd (tokens buf) = ''sm''"
  shows "runcmd k fuel buf = mon_showmappings k fuel (tokens buf)"
proof -
  have "parse_args buf [] = Some (tokens buf)"
    using parse_args_tokens [of "[]" buf] assms(1) by (simp add: MAXARGS_def)
  moreover have "find (\<lambda>c. hd (tokens buf) = name c \<or> hd (tokens buf) = sname c) commands =
      Some (commands ! 3)"
    using assms(3) by (auto simp: commands_def)
  ultimately show ?thesis
    using assms(2) by (simp add: runcmd_def) (simp add: commands_def)
qed

lemma showmappings_loop_status:
  "snd (showmappings_loop k fuel addr end_addr) \<in> {Return 0, Overrun, OutOfFuel}"
proof (induction fuel arbitrary: addr)
  case 0
  show ?case by simp
next
  case (Suc fuel)
  show ?case
  proof (cases "addr \<le> end_addr")
    case True
    from Suc [of "addr + PGSIZE k"] show ?thesis
      by (auto simp: showmappings_loop_step [OF True] after_overrun_simps
            simp del: showmappings_loop.simps)
  next
    case False
    then show ?thesis
      by (simp add: showmappings_loop_done del: showmappings_loop.simps)
  qed
qed

lemma wellformed_showmappings_status:
  assumes "\<not> malformed k argv"
  shows "snd (mon_showmappings k fuel argv) \<in> {Fault, Return 0, Overrun, OutOfFuel}"
proof (cases argv)
  case Nil
  then show ?thesis
    by (simp add: mon_showmappings_def arg_at_def)
next
  case (Cons c rest)
  show ?thesis
  proof (cases rest)
    case Nil
    then show ?thesis
      using Cons by (simp add: mon_showmappings_def arg_at_def)
  next
    case (Cons a others)
    note argv = \<open>argv = c # rest\<close> Cons
    have ra: "snd (strtol k a 16) = []"
      using assms argv by (auto simp: malformed_def)
    then have a: "strtol k a 16 = (fst (strtol k a 16), [])"
      by (simp add: prod_eq_iff)
    show ?thesis
    proof (cases others)
      case Nil
      then show ?thesis
        using argv showmappings_single [OF a, of fuel c] by simp
    next
      case (Cons b others')
      have "others' = []"
        using assms argv Cons by (cases others') (auto simp: malformed_def)
      note argv3 = argv Cons this
      have rb: "snd (strtol k b 16) = []"
        and le: "\<not> ROUNDDOWN (word_of_int (fst (strtol k a 16))) (PGSIZE k)
                    > word_of_int (fst (strtol k b 16))"
        using assms argv3 by (auto simp: malformed_def)
      from rb have b: "strtol k b 16 = (fst (strtol k b 16), [])"
        by (simp add: prod_eq_iff)
      show ?thesis
        using argv3 le showmappings_range [OF a b, of fuel c]
          showmappings_loop_status
            [of k fuel "ROUNDDOWN (word_of_int (fst (strtol k a 16))) (PGSIZE k)"
               "ROUNDUP (word_of_int (fst (strtol k b 16))) (PGSIZE k)"]
        by simp
    qed
  qed
qed

lemma showmappings_negative_status:
  assumes "snd (mon_showmappings k fuel argv) = Return r" and "r < 0"
  shows "malformed k argv \<and> r = - E_INVAL k"
proof -
  have m: "malformed k argv"
  proof (rule ccontr)
    assume "\<not> malformed k argv"
    from wellformed_showmappings_status [OF this, of fuel] assms show False
      by auto
  qed
  from malformed_showmappings_status [OF m, of fuel] assms(1) have "r = - E_INVAL k"
    by auto
  with m show ?thesis ..
qed

lemma runcmd_no_command:
  "tokens buf = [] \<or> 15 < length (tokens buf) \<or>
   find (\<lambda>c. hd (tokens buf) = name c \<or> hd (tokens buf) = sname c) commands = None \<Longrightarrow>
   snd (runcmd k fuel buf) = Return 0"
  using parse_args_tokens [of "[]" buf]
  by (auto simp: runcmd_def MAXARGS_def)

lemma runcmd_negative_status:
  assumes "snd (runcmd k fuel buf) = Return r" and "r < 0"
  shows "length (tokens buf) \<le> 15 \<and>
         (hd (tokens buf) = ''showmappings'' \<or> hd (tokens buf) = ''sm'') \<and>
         snd (mon_showmappings k fuel (tokens buf)) = Return r"
proof -
  have len: "length (tokens buf) \<le> 15" and ne: "tokens buf \<noteq> []"
    using runcmd_no_command [of buf k fuel] assms by (auto simp: not_less [symmetric])
  then have parse: "parse_args buf [] = Some (tokens buf)"
    using parse_args_tokens [of "[]" buf] by (simp add: MAXARGS_def)
  have bt: "snd (mon_backtrace k fuel (tokens buf)) \<noteq> Return r"
    using backtrace_loop_status [of k fuel "read_ebp k"] assms(2)
    by (auto simp: mon_backtrace_def split_beta)
  have "hd (tokens buf) = ''showmappings'' \<or> hd (tokens buf) = ''sm''"
    using assms bt parse ne
    by (auto simp: runcmd_def commands_def mon_help_def mon_kerninfo_def split: if_splits)
  moreover from this have "runcmd k fuel buf = mon_showmappings k fuel (tokens buf)"
    using len ne by (intro runcmd_showmappings)
  ultimately show ?thesis
    using len assms(1) by simp
qed

text \<open>
  C1 says that no malformed invocation ends the console loop, since the inspection
  handlers never return a negative status, so that the console keeps reading lines after
  any malformed \<open>showmappings\<close>. The handler does return a negative status: every
  error path that returns at all returns \<open>-E_INVAL\<close>, and \<open>monitor\<close> leaves its
  loop on any status below zero. With the sample kernel (\<open>E_INVAL = 3\<close>) the line
  \<open>showmappings 10g0\<close> returns \<open>-3\<close> and ends the console; the line behind it is
  never read.
\<close>

theorem malformed_showmappings_keeps_console_counterexample:
  "snd (mon_showmappings jos 0 [''showmappings'', ''10g0'']) = Return (- 3) \<and>
   monitor jos 0 [Some ''showmappings 10g0'', Some ''help''] =
     ([Cprintf ''Welcome to the JOS kernel monitor!\<newline>'' [],
       Cprintf ''Type 'help' for a list of commands.\<newline>'' [],
       Readline ''K> '',
       Cprintf ''invalid start address.\<newline>'' []], Exited)"
  by (simp add: monitor_def runcmd_def parse_args.simps commands_def mon_showmappings_def
        jos_eval strchr_def WHITESPACE_def MAXARGS_def Let_def)

text \<open>
  C1 as amended. The exit contract holds: \<open>monitor\<close> leaves its loop only after a
  command has returned a negative status, and it is still reading after input whose
  commands all return zero or more. The only negative status there is comes from the
  handler \<open>mon_showmappings\<close>: \<open>runcmd\<close> returns 0 itself on an empty line, on
  more than 15 tokens and on an unknown command, \<open>mon_help\<close> and
  \<open>mon_kerninfo\<close> return 0, \<open>mon_backtrace\<close> never returns a negative status,
  and a negative status of \<open>runcmd\<close> is the status of \<open>mon_showmappings\<close> on
  the tokens of a line that invokes \<open>showmappings\<close> or \<open>sm\<close>. That handler
  returns a negative status exactly on a malformed invocation (a non-hex character in
  an address, more than two addresses, start above end): it returns \<open>-E_INVAL\<close>,
  without any lookup, and \<open>E_INVAL\<close> being a positive error code this status is
  negative. So the console loop is left only by a malformed \<open>showmappings\<close> line,
  and such a line does end it, whatever input follows.
\<close>

theorem negative_showmappings_status_ends_console:
  "(snd (monitor_loop k fuel input) = Exited \<longrightarrow>
      (\<exists>line. Some line \<in> set input \<and> tokens line \<noteq> [] \<and> length (tokens line) \<le> 15 \<and>
         (hd (tokens line) = ''showmappings'' \<or> hd (tokens line) = ''sm'') \<and>
         malformed k (tokens line) \<and>
         runcmd k fuel line = mon_showmappings k fuel (tokens line) \<and>
         snd (mon_showmappings k fuel (tokens line)) = Return (- E_INVAL k) \<and>
         - E_INVAL k < 0)) \<and>
   ((\<forall>l\<in>set input. \<forall>buf. l = Some buf \<longrightarrow> (\<exists>r\<ge>0. snd (runcmd k fuel buf) = Return r)) \<longrightarrow>
      snd (monitor_loop k fuel input) = Reading) \<and>
   (tokens buf = [] \<or> 15 < length (tokens buf) \<or>
    find (\<lambda>c. hd (tokens buf) = name c \<or> hd (tokens buf) = sname c) commands = None \<longrightarrow>
      snd (runcmd k fuel buf) = Return 0) \<and>
   (\<forall>r<0. snd (runcmd k fuel buf) = Return r \<longrightarrow>
      length (tokens buf) \<le> 15 \<and>
      (hd (tokens buf) = ''showmappings'' \<or> hd (tokens buf) = ''sm'') \<and>
      snd (mon_showmappings k fuel (tokens buf)) = Return r) \<and>
   snd (mon_help k fuel argv) = Return 0 \<and>
   snd (mon_kerninfo k fuel argv) = Return 0 \<and>
   (snd (mon_backtrace k fuel argv) = Return 0 \<or> snd (mon_backtrace k fuel argv) = OutOfFuel) \<and>
   (\<forall>r<0. snd (mon_showmappings k fuel argv) = Return r \<longrightarrow>
      malformed k argv \<and> r = - E_INVAL k) \<and>
   (0 < E_INVAL k \<and> malformed k argv \<longrightarrow>
      snd (mon_showmappings k fuel argv) = Return (- E_INVAL k) \<and> - E_INVAL k < 0 \<and>
      lookups (fst (mon_showmappings k fuel argv)) = []) \<and>
   (0 < E_INVAL k \<and> malformed k (tokens buf) \<and> length (tokens buf) \<le> 15 \<and>
    (hd (tokens buf) = ''showmappings'' \<or> hd (tokens buf) = ''sm'') \<longrightarrow>
      monitor_loop k fuel (Some buf # later) =
        (Readline ''K> '' # fst (mon_showmappings k fuel (tokens buf)), Exited))"
proof -
  have bt: "snd (mon_backtrace k fuel argv) = Return 0 \<or> snd (mon_backtrace k fuel argv) = OutOfFuel"
    using backtrace_loop_status [of k fuel "read_ebp k"]
    by (simp add: mon_backtrace_def split_beta)
  have sm: "snd (mon_showmappings k fuel args) = Return (- E_INVAL k) \<and>
      lookups (fst (mon_showmappings k fuel args)) = []" if "malformed k args" for args
    using malformed_showmappings_status [OF that, of fuel] by auto
  have neg: "length (tokens l) \<le> 15 \<and> tokens l \<noteq> [] \<and>
      (hd (tokens l) = ''showmappings'' \<or> hd (tokens l) = ''sm'') \<and>
      runcmd k fuel l = mon_showmappings k fuel (tokens l) \<and>
      snd (mon_showmappings k fuel (tokens l)) = Return r \<and>
      malformed k (tokens l) \<and> r = - E_INVAL k"
    if "snd (runcmd k fuel l) = Return r" "r < 0" for l r
  proof -
    from runcmd_negative_status [OF that]
    have len: "length (tokens l) \<le> 15"
      and hd: "hd (tokens l) = ''showmappings'' \<or> hd (tokens l) = ''sm''"
      and st: "snd (mon_showmappings k fuel (tokens l)) = Return r"
      by simp_all
    from showmappings_negative_status [OF st that(2)]
    have m: "malformed k (tokens l)" and r: "r = - E_INVAL k"
      by simp_all
    from m have ne: "tokens l \<noteq> []"
      by (auto simp: malformed_def)
    from runcmd_showmappings [OF len ne hd]
    have "runcmd k fuel l = mon_showmappings k fuel (tokens l)" .
    with len ne hd st m r show ?thesis
      by simp
  qed
  have line: "monitor_loop k fuel (Some buf # later) =
        (Readline ''K> '' # fst (mon_showmappings k fuel (tokens buf)), Exited)"
    if "0 < E_INVAL k" "malformed k (tokens buf)" "length (tokens buf) \<le> 15"
      "hd (tokens buf) = ''showmappings'' \<or> hd (tokens buf) = ''sm''"
  proof -
    have "tokens buf \<noteq> []"
      using that(2) by (auto simp: malformed_def)
    then have "runcmd k fuel buf = mon_showmappings k fuel (tokens buf)"
      using that by (intro runcmd_showmappings)
    moreover have "mon_showmappings k fuel (tokens buf) =
        (fst (mon_showmappings k fuel (tokens buf)), Return (- E_INVAL k))"
      using sm [OF that(2)] by (simp add: prod_eq_iff)
    ultimately have "runcmd k fuel buf =
        (fst (mon_showmappings k fuel (tokens buf)), Return (- E_INVAL k))"
      by simp
    then show ?thesis
      using that(1) by simp
  qed
  show ?thesis
  proof (intro conjI impI allI)
    assume "snd (monitor_loop k fuel input) = Exited"
    from monitor_loop_exit [OF this]
    obtain l r where l: "Some l \<in> set input" and st: "snd (runcmd k fuel l) = Return r"
      and r: "r < 0"
      by blast
    from neg [OF st r] r have "tokens l \<noteq> [] \<and> length (tokens l) \<le> 15 \<and>
         (hd (tokens l) = ''showmappings'' \<or> hd (tokens l) = ''sm'') \<and>
         malformed k (tokens l) \<and>
         runcmd k fuel l = mon_showmappings k fuel (tokens l) \<and>
         snd (mon_showmappings k fuel (tokens l)) = Return (- E_INVAL k) \<and>
         - E_INVAL k < 0"
      by simp
    with l show "\<exists>line. Some line \<in> set input \<and> tokens line \<noteq> [] \<and> length (tokens line) \<le> 15 \<and>
         (hd (tokens line) = ''showmappings'' \<or> hd (tokens line) = ''sm'') \<and>
         malformed k (tokens line) \<and>
         runcmd k fuel line = mon_showmappings k fuel (tokens line) \<and>
         snd (mon_showmappings k fuel (tokens line)) = Return (- E_INVAL k) \<and>
         - E_INVAL k < 0"
      by (intro exI [of _ l]) simp
  next
    assume "\<forall>l\<in>set input. \<forall>buf. l = Some buf \<longrightarrow> (\<exists>r\<ge>0. snd (runcmd k fuel buf) = Return r)"
    then show "snd (monitor_loop k fuel input) = Reading"
      by (rule monitor_loop_keeps_reading)
  next
    assume "tokens buf = [] \<or> 15 < length (tokens buf) \<or>
      find (\<lambda>c. hd (tokens buf) = name c \<or> hd (tokens buf) = sname c) commands = None"
    then show "snd (runcmd k fuel buf) = Return 0"
      by (rule runcmd_no_command)
  next
    fix r :: int
    assume "r < 0" and "snd (runcmd k fuel buf) = Return r"
    from neg [OF this(2) this(1)]
    show "length (tokens buf) \<le> 15"
      and "hd (tokens buf) = ''showmappings'' \<or> hd (tokens buf) = ''sm''"
      and "snd (mon_showmappings k fuel (tokens buf)) = Return r"
      by simp_all
  next
    show "snd (mon_help k fuel argv) = Return 0"
      by (simp add: mon_help_def)
  next
    show "snd (mon_kerninfo k fuel argv) = Return 0"
      by (simp add: mon_kerninfo_def)
  next
    show "snd (mon_backtrace k fuel argv) = Return 0 \<or> snd (mon_backtrace k fuel argv) = OutOfFuel"
      by (rule bt)
  next
    fix r :: int
    assume "r < 0" and "snd (mon_showmappings k fuel argv) = Return r"
    from showmappings_negative_status [OF this(2) this(1)]
    show "malformed k argv" and "r = - E_INVAL k"
      by simp_all
  next
    assume "0 < E_INVAL k \<and> malformed k argv"
    then show "snd (mon_showmappings k fuel argv) = Return (- E_INVAL k)"
      and "- E_INVAL k < 0"
      and "lookups (fst (mon_showmappings k fuel argv)) = []"
      using sm [of argv] by simp_all
  next
    assume "0 < E_INVAL k \<and> malformed k (tokens buf) \<and> length (tokens buf) \<le> 15 \<and>
      (hd (tokens buf) = ''showmappings'' \<or> hd (tokens buf) = ''sm'')"
    then show "monitor_loop k fuel (Some buf # later) =
        (Readline ''K> '' # fst (mon_showmappings k fuel (tokens buf)), Exited)"
      using line by blast
  qed
qed

text \<open>
  The line \<open>showmappings 10g0\<close> ends the console of the sample kernel; the line
  \<open>help\<close>, the empty line and the unknown command \<open>quit\<close> do not.
\<close>

theorem negative_showmappings_status_ends_console_witness:
  "0 < E_INVAL jos \<and> malformed jos (tokens ''showmappings 10g0'') \<and>
   length (tokens ''showmappings 10g0'') \<le> 15 \<and>
   hd (tokens ''showmappings 10g0'') = ''showmappings'' \<and>
   mon_showmappings jos 0 (tokens ''showmappings 10g0'') =
     ([Cprintf ''invalid start address.\<newline>'' []], Return (- 3)) \<and>
   monitor_loop jos 0 [Some ''showmappings 10g0'', Some ''help''] =
     ([Readline ''K> '', Cprintf ''invalid start address.\<newline>'' []], Exited) \<and>
   (\<exists>line. Some line \<in> set [Some ''showmappings 10g0'', Some ''help''] \<and>
      hd (tokens line) = ''showmappings'' \<and> malformed jos (tokens line) \<and>
      runcmd jos 0 line = mon_showmappings jos 0 (tokens line)) \<and>
   snd (runcmd jos 0 ''showmappings 10g0'') = Return (- 3) \<and>
   snd (runcmd jos 0 []) = Return 0 \<and>
   snd (runcmd jos 0 ''quit'') = Return 0 \<and>
   snd (runcmd jos 0 ''help'') = Return 0 \<and>
   snd (monitor_loop jos 0 [Some ''help'', None]) = Reading"
proof -
  have e: "0 < E_INVAL jos"
    by (simp add: jos_def)
  have t: "tokens ''showmappings 10g0'' = [''showmappings'', ''10g0'']"
    "tokens ''help'' = [''help'']" "tokens [] = []" "tokens ''quit'' = [''quit'']"
    by (simp_all add: tokens_def strchr_def WHITESPACE_def)
  have m: "malformed jos [''showmappings'', ''10g0'']" "\<not> malformed jos [''help'']"
    by (simp_all add: malformed_def jos_eval)
  have sm: "mon_showmappings jos 0 [''showmappings'', ''10g0''] =
     ([Cprintf ''invalid start address.\<newline>'' []], Return (- 3))"
    by (simp add: mon_showmappings_def jos_eval)
  have q: "find (\<lambda>c. hd [''quit''] = name c \<or> hd [''quit''] = sname c) commands = None"
    by (simp add: commands_def)
  have h: "snd (runcmd jos 0 ''help'') = Return 0"
    by (simp add: runcmd_def parse_args.simps strchr_def WHITESPACE_def MAXARGS_def
          commands_def mon_help_def)
  then have all: "\<forall>l\<in>set [Some ''help'', None]. \<forall>buf. l = Some buf \<longrightarrow>
      (\<exists>r\<ge>0. snd (runcmd jos 0 buf) = Return r)"
    by simp
  have line: "monitor_loop jos 0 [Some ''showmappings 10g0'', Some ''help''] =
     ([Readline ''K> '', Cprintf ''invalid start address.\<newline>'' []], Exited)"
    using negative_showmappings_status_ends_console
        [where k = jos and fuel = 0 and buf = "''showmappings 10g0''"
           and later = "[Some ''help'']",
         THEN conjunct2, THEN conjunct2, THEN conjunct2, THEN conjunct2, THEN conjunct2,
         THEN conjunct2, THEN conjunct2, THEN conjunct2, THEN conjunct2]
      e m(1)
    by (simp only: t sm fst_conv list.sel simp_thms le_numeral_extra length_Cons list.size)
  then have exited:
    "snd (monitor_loop jos 0 [Some ''showmappings 10g0'', Some ''help'']) = Exited"
    by (simp only: snd_conv)
  from negative_showmappings_status_ends_console
      [where k = jos and fuel = 0 and input = "[Some ''showmappings 10g0'', Some ''help'']",
       THEN conjunct1, THEN mp, OF exited]
  obtain l where l: "Some l \<in> set [Some ''showmappings 10g0'', Some ''help'']"
    "malformed jos (tokens l)" "runcmd jos 0 l = mon_showmappings jos 0 (tokens l)"
    by blast
  from l(1,2) m(2) have "l = ''showmappings 10g0''"
    by (auto simp: t)
  with l have ex: "\<exists>line. Some line \<in> set [Some ''showmappings 10g0'', Some ''help''] \<and>
      hd (tokens line) = ''showmappings'' \<and> malformed jos (tokens line) \<and>
      runcmd jos 0 line = mon_showmappings jos 0 (tokens line)"
    by (intro exI [of _ "''showmappings 10g0''"]) (simp add: t)
  from l \<open>l = ''showmappings 10g0''\<close>
  have run: "snd (runcmd jos 0 ''showmappings 10g0'') = Return (- 3)"
    by (simp add: t sm)
  have empty: "snd (runcmd jos 0 []) = Return 0"
    using negative_showmappings_status_ends_console
        [where k = jos and fuel = 0 and buf = "[]",
         THEN conjunct2, THEN conjunct2, THEN conjunct1]
    by (simp only: t simp_thms)
  have quit: "snd (runcmd jos 0 ''quit'') = Return 0"
    using negative_showmappings_status_ends_console
        [where k = jos and fuel = 0 and buf = "''quit''",
         THEN conjunct2, THEN conjunct2, THEN conjunct1]
      q
    by (simp only: t simp_thms)
  have reading: "snd (monitor_loop jos 0 [Some ''help'', None]) = Reading"
    using negative_showmappings_status_ends_console
        [where k = jos and fuel = 0 and input = "[Some ''help'', None]",
         THEN conjunct2, THEN conjunct1, THEN mp, OF all] .
  show ?thesis
    using e m(1) sm line ex run empty quit h reading by (simp add: t)
qed

subsection \<open>The page walk over a range\<close>

text \<open>
  Page-aligned addresses for 4 KiB pages, as natural numbers: an aligned address is at
  most \<open>0xfffff000\<close>, and the address one page further is aligned again, also when the
  addition wraps.
\<close>

lemma page_aligned_unat: assumes "unat (addr :: u32) mod 4096 = 0" shows "unat addr = 4096 * (unat addr div 4096)"
proof -
  from assms have "4096 dvd unat addr"
    by (simp add: mod_eq_0_iff_dvd)
  then show ?thesis
    by (simp add: dvd_mult_div_cancel)
qed

lemma page_aligned_le_top:
  assumes "unat (addr :: u32) mod 4096 = 0"
  shows "addr \<le> 0xFFFFF000"
proof -
  have "unat addr < 4294967296"
    using unsigned_less [of addr, where 'a = nat] by simp
  moreover have "unat addr = 4096 * (unat addr div 4096)"
    using assms by (rule page_aligned_unat)
  moreover have "unat addr div 4096 < 1048576"
    using \<open>unat addr < 4294967296\<close> by (simp add: less_mult_imp_div_less)
  ultimately have "unat addr \<le> 4294963200"
    by linarith
  then show ?thesis
    by (simp add: word_le_nat_alt)
qed

lemma page_aligned_next:
  assumes "unat (addr :: u32) mod 4096 = 0"
  shows "unat (addr + 0x1000) mod 4096 = 0"
proof -
  have "unat (addr + 0x1000) = (unat addr + 4096) mod 4294967296"
    by (simp add: unat_word_ariths)
  moreover have "(4096 :: nat) dvd 4294967296"
    by simp
  ultimately have "unat (addr + 0x1000) mod 4096 = (unat addr + 4096) mod 4096"
    by (simp only: mod_mod_cancel)
  with assms show ?thesis
    by simp
qed

lemma unat_ROUNDDOWN: "unat (ROUNDDOWN a 0x1000) = 4096 * (unat a div 4096)"
proof -
  have "unat (a div 0x1000) = unat a div 4096"
    by (simp add: unat_div)
  moreover have "unat a div 4096 * 4096 < 2 ^ LENGTH(32)"
    using unsigned_less [of a, where 'a = nat] div_times_less_eq_dividend [of "unat a" 4096]
    by (simp del: unsigned_less div_times_less_eq_dividend)
  ultimately have "unat (a div 0x1000 * 0x1000) = unat a div 4096 * 4096"
    using unat_mult_lem [of "a div 0x1000" "0x1000 :: u32"] by simp
  then show ?thesis
    by (simp add: ROUNDDOWN_div_mult)
qed

text \<open>
  With the end at the last page boundary the loop test holds for every aligned address:
  the loop uses up any fuel, one lookup per iteration.
\<close>

lemma showmappings_loop_top:
  "PGSIZE k = 0x1000 \<Longrightarrow> unat addr mod 4096 = 0 \<Longrightarrow>
   snd (showmappings_loop k fuel addr 0xFFFFF000) = OutOfFuel \<and>
   length (lookups (fst (showmappings_loop k fuel addr 0xFFFFF000))) = fuel"
proof (induction fuel arbitrary: addr)
  case 0
  then show ?case
    using page_aligned_le_top [of addr] by simp
next
  case (Suc fuel)
  have le: "addr \<le> 0xFFFFF000"
    using Suc.prems(2) by (rule page_aligned_le_top)
  have "unat (addr + PGSIZE k) mod 4096 = 0"
    using page_aligned_next [OF Suc.prems(2)] Suc.prems(1) by simp
  from Suc.IH [OF Suc.prems(1) this] show ?case
    by (simp add: showmappings_loop_step [OF le] lookups_append lookups_page_report
          after_overrun_simps del: showmappings_loop.simps)
qed

text \<open>
  With the end at page \<open>e\<close> below the last one, the loop started at page
  \<open>a \<le> e\<close> ends after \<open>e - a + 1\<close> iterations.
\<close>

lemma showmappings_loop_returns:
  "PGSIZE k = 0x1000 \<Longrightarrow> unat addr = 4096 * a \<Longrightarrow> unat end_addr = 4096 * e \<Longrightarrow>
   a \<le> e \<Longrightarrow> e < 1048575 \<Longrightarrow> e - a < fuel \<Longrightarrow>
   showmappings_loop k fuel addr end_addr =
     (concat (map (page_report k) (page_addrs addr 0x1000 (Suc (e - a)))),
      walk_status k (page_addrs addr 0x1000 (Suc (e - a))))"
proof (induction fuel arbitrary: addr a)
  case 0
  then show ?case by simp
next
  case (Suc fuel)
  have le: "addr \<le> end_addr"
    using Suc.prems by (simp add: word_le_nat_alt)
  have "unat addr + unat (0x1000 :: u32) < 2 ^ LENGTH(32)"
    using Suc.prems by simp
  then have next_addr: "unat (addr + 0x1000) = 4096 * Suc a"
    using Suc.prems by (simp add: unat_add_lem [THEN iffD1])
  show ?case
  proof (cases "a = e")
    case True
    have "\<not> addr + 0x1000 \<le> end_addr"
      using next_addr Suc.prems True by (simp add: word_le_nat_alt)
    then have "showmappings_loop k fuel (addr + 0x1000) end_addr = ([], Return 0)"
      by (rule showmappings_loop_done)
    then show ?thesis
      using True Suc.prems(1)
      by (simp add: showmappings_loop_step [OF le] page_addrs_def walk_status_Cons
            walk_status_Nil del: showmappings_loop.simps)
  next
    case False
    then have "Suc a \<le> e" "e - Suc a < fuel" and n: "Suc (e - a) = Suc (Suc (e - Suc a))"
      using Suc.prems by simp_all
    from Suc.IH [OF Suc.prems(1) next_addr Suc.prems(3) this(1) Suc.prems(5) this(2)]
    show ?thesis
      using Suc.prems(1)
      by (simp add: showmappings_loop_step [OF le] n page_addrs_Suc walk_status_Cons
            del: showmappings_loop.simps)
  qed
qed

lemma unat_page_addrs:
  "unat start + 4096 * n \<le> 4294967296 \<Longrightarrow>
   map unat (page_addrs start 0x1000 n) = map (\<lambda>i. unat start + 4096 * i) [0..<n]"
proof (induction n arbitrary: start)
  case 0
  then show ?case by (simp add: page_addrs_def)
next
  case (Suc n)
  show ?case
  proof (cases n)
    case 0
    then show ?thesis by (simp add: page_addrs_def)
  next
    case (Suc m)
    have "unat start + unat (0x1000 :: u32) < 2 ^ LENGTH(32)"
      using Suc.prems Suc by simp
    then have nx: "unat (start + 0x1000) = unat start + 4096"
      by (simp add: unat_add_lem [THEN iffD1])
    then have "unat (start + 0x1000) + 4096 * n \<le> 4294967296"
      using Suc.prems by simp
    from Suc.IH [OF this] have "map unat (page_addrs (start + 0x1000) 0x1000 n) =
        map (\<lambda>i. unat start + 4096 * Suc i) [0..<n]"
      by (simp add: nx)
    moreover have "[0..<Suc n] = 0 # map Suc [0..<n]"
      by (simp add: upt_conv_Cons map_Suc_upt del: upt_Suc)
    ultimately show ?thesis
      by (simp add: page_addrs_Suc comp_def del: upt_Suc)
  qed
qed

lemma length_page_addrs: "length (page_addrs start pgsize n) = n"
  by (simp add: page_addrs_def)

lemma lines_out_Nil: "lines_out [] = 0"
  by (simp add: lines_out_def)

lemma lines_out_append: "lines_out (xs @ ys) = lines_out xs + lines_out ys"
  by (simp add: lines_out_def prints_append)

lemma lines_out_page_report: "lines_out (page_report k va) = 1"
  by (simp add: lines_out_def page_report_def ends_line_def)

lemma lines_out_page_reports: "lines_out (concat (map (page_report k) pages)) = length pages"
  by (induction pages) (simp_all add: lines_out_append lines_out_page_report lines_out_Nil)

lemma showmappings_walk_never_ends:
  assumes "PGSIZE k = 0x1000" and "strtol k a 16 = (va, [])" and "strtol k b 16 = (vb, [])"
    and "ROUNDDOWN (word_of_int va) 0x1000 \<le> word_of_int vb"
    and "ROUNDUP (word_of_int vb) 0x1000 = 0xFFFFF000"
  shows "snd (mon_showmappings k fuel [c, a, b]) = OutOfFuel \<and>
         length (lookups (fst (mon_showmappings k fuel [c, a, b]))) = fuel"
proof -
  have "unat (ROUNDDOWN (word_of_int va) 0x1000) mod 4096 = 0"
    by (simp add: unat_ROUNDDOWN)
  from showmappings_loop_top [OF assms(1) this, of fuel] show ?thesis
    using assms by (simp add: showmappings_range lookups_append not_less [symmetric])
qed

lemma showmappings_walk_returns:
  assumes pg: "PGSIZE k = 0x1000"
    and a: "strtol k a 16 = (va, [])" and b: "strtol k b 16 = (vb, [])"
    and s: "s = ROUNDDOWN (word_of_int va) 0x1000" and e: "e = ROUNDUP (word_of_int vb) 0x1000"
    and acc: "s \<le> word_of_int vb"
    and top: "e \<noteq> 0xFFFFF000"
    and n: "n = (if s \<le> e then unat (e - s) div 4096 + 1 else 0)"
    and fuel: "n \<le> fuel"
  shows "showmappings_loop k fuel s e =
           (concat (map (page_report k) (page_addrs s 0x1000 n)),
            walk_status k (page_addrs s 0x1000 n)) \<and>
         unat s + 4096 * n \<le> 4294967296"
proof -
  define ps where "ps = unat (word_of_int va :: u32) div 4096"
  define pe where "pe = unat ((word_of_int vb :: u32) + 0x1000 - 1) div 4096"
  have us: "unat s = 4096 * ps"
    by (simp add: s ps_def unat_ROUNDDOWN)
  have ue: "unat e = 4096 * pe"
    by (simp add: e pe_def ROUNDUP_def unat_ROUNDDOWN)
  have "unat e < 4294967296"
    using unsigned_less [of e, where 'a = nat] by simp
  then have "pe < 1048576"
    using ue by simp
  moreover have "pe \<noteq> 1048575"
  proof
    assume "pe = 1048575"
    then have "unat e = unat (0xFFFFF000 :: u32)"
      using ue by simp
    then have "e = 0xFFFFF000"
      by (simp only: word_unat_eq_iff [symmetric])
    with top show False by simp
  qed
  ultimately have pe: "pe < 1048575"
    by simp
  show ?thesis
  proof (cases "s \<le> e")
    case True
    then have le: "ps \<le> pe"
      using us ue by (simp add: word_le_nat_alt)
    have "unat (e - s) = unat e - unat s"
      using True by (simp add: unat_sub)
    then have "unat (e - s) div 4096 = pe - ps"
      using us ue by (simp add: diff_mult_distrib2 [symmetric])
    then have n': "n = Suc (pe - ps)"
      using n True by simp
    then have "pe - ps < fuel"
      using fuel by simp
    from showmappings_loop_returns [OF pg us ue le pe this]
    have "showmappings_loop k fuel s e =
        (concat (map (page_report k) (page_addrs s 0x1000 n)),
         walk_status k (page_addrs s 0x1000 n))"
      by (simp add: n')
    moreover have "unat s + 4096 * n \<le> 4294967296"
      using us n' le pe by simp
    ultimately show ?thesis ..
  next
    case False
    then have n': "n = 0"
      using n by simp
    have "showmappings_loop k fuel s e =
        (concat (map (page_report k) (page_addrs s 0x1000 n)),
         walk_status k (page_addrs s 0x1000 n))"
      using False by (simp add: showmappings_loop_done n' page_addrs_def walk_status_Nil)
    moreover have "unat s + 4096 * n \<le> 4294967296"
      using unsigned_less [of s, where 'a = nat] by (simp add: n')
    ultimately show ?thesis ..
  qed
qed

text \<open>
  For 4 KiB pages, an accepted range (both arguments valid hex, start rounded down not
  above the end) whose rounded-up end \<open>e\<close> is not the last page boundary
  \<open>0xfffff000\<close> is walked page by page: given fuel for \<open>n\<close> iterations, the run
  makes its three heading calls and one page report for each page-aligned address from
  the rounded-down start \<open>s\<close> up to and including \<open>e\<close>, in ascending order
  without wrapping, one line of output per page. The handler returns 0 when none of
  these pages is mapped.
\<close>

lemma showmappings_range_page_reports:
  assumes pg: "PGSIZE k = 0x1000"
    and a: "strtol k a 16 = (va, [])" and b: "strtol k b 16 = (vb, [])"
    and s: "s = ROUNDDOWN (word_of_int va) (PGSIZE k)"
    and e: "e = ROUNDUP (word_of_int vb) (PGSIZE k)"
    and acc: "s \<le> word_of_int vb" and top: "e \<noteq> 0xFFFFF000"
    and n: "n = (if s \<le> e then unat (e - s) div unat (PGSIZE k) + 1 else 0)"
    and fuel: "n \<le> fuel"
  shows "snd (mon_showmappings k fuel [c, a, b]) = walk_status k (page_addrs s (PGSIZE k) n) \<and>
     drop 3 (fst (mon_showmappings k fuel [c, a, b])) =
       concat (map (page_report k) (page_addrs s (PGSIZE k) n)) \<and>
     lookups (fst (mon_showmappings k fuel [c, a, b])) =
       map (\<lambda>va. (va, False)) (page_addrs s (PGSIZE k) n) \<and>
     map unat (page_addrs s (PGSIZE k) n) = map (\<lambda>i. unat s + unat (PGSIZE k) * i) [0..<n] \<and>
     lines_out (drop 3 (fst (mon_showmappings k fuel [c, a, b]))) = n"
proof -
  have s': "s = ROUNDDOWN (word_of_int va) 0x1000" and e': "e = ROUNDUP (word_of_int vb) 0x1000"
    and n': "n = (if s \<le> e then unat (e - s) div 4096 + 1 else 0)"
    using s e n pg by simp_all
  from showmappings_walk_returns [OF pg a b s' e' acc top n' fuel]
  have walk: "showmappings_loop k fuel s e =
      (concat (map (page_report k) (page_addrs s 0x1000 n)),
       walk_status k (page_addrs s 0x1000 n))"
    and bound: "unat s + 4096 * n \<le> 4294967296"
    by simp_all
  have run: "mon_showmappings k fuel [c, a, b] =
      ([Cprintf ''%x round up to '' [U (word_of_int vb)],
        Cprintf ''%x\<newline>'' [U e],
        Cprintf ''start_addr:%x, end_addr:%x\<newline>'' [U s, U e]]
       @ concat (map (page_report k) (page_addrs s 0x1000 n)),
       walk_status k (page_addrs s 0x1000 n))"
    using acc walk by (simp add: showmappings_range [OF a b] s e pg not_less [symmetric])
  show ?thesis
    using unat_page_addrs [OF bound]
    by (simp add: run pg lookups_concat_page_report lines_out_page_reports length_page_addrs)
qed

text \<open>
  C4 says that every accepted range gets exactly \<open>N\<close> lookups, one for each of the
  \<open>N\<close> page-aligned addresses from its rounded start to its rounded end, in ascending
  order. Below the last page boundary this is what the loop does
  (\<open>showmappings_range_page_reports\<close>). At the last page boundary it is not: the range
  from \<open>0xfffff000\<close> to \<open>0xfffff000\<close> rounds to itself and holds one page-aligned
  address, yet with fuel for five iterations the run makes five lookups, the first at
  \<open>0xfffff000\<close> and the next ones at 0 and upwards, since the increment wraps, and it
  is still in its loop.
\<close>

theorem showmappings_top_page_lookups_wrap:
  "ROUNDDOWN 0xFFFFF000 (PGSIZE jos) = 0xFFFFF000 \<and>
   ROUNDUP 0xFFFFF000 (PGSIZE jos) = 0xFFFFF000 \<and>
   snd (mon_showmappings jos 5 [''showmappings'', ''fffff000'', ''fffff000'']) = OutOfFuel \<and>
   map fst (lookups (fst (mon_showmappings jos 5 [''showmappings'', ''fffff000'', ''fffff000'']))) =
     [0xFFFFF000, 0, 0x1000, 0x2000, 0x3000]"
proof -
  have fuel: "(5 :: nat) = Suc (Suc (Suc (Suc (Suc 0))))"
    by simp
  show ?thesis
    by (simp add: mon_showmappings_def jos_eval Let_def fuel)
qed

text \<open>
  C5 says that the page walk of every accepted range terminates, including when the
  rounded-up end lies at the very top of the 32-bit address space, where the increment
  wraps. It does not terminate there: with 4 KiB pages and the rounded-up end at
  \<open>0xfffff000\<close>, the test \<open>addr <= end_addr\<close> holds for every page-aligned
  address, and the increment takes \<open>0xfffff000\<close> to 0. In the sample kernel
  \<open>showmappings fffff000 fffff000\<close> is still in its loop after any number of
  iterations, with one lookup made per iteration, and the console does not get back to
  its prompt.
\<close>

theorem showmappings_top_page_walk_never_ends:
  "snd (mon_showmappings jos fuel [''showmappings'', ''fffff000'', ''fffff000'']) = OutOfFuel \<and>
   length (lookups (fst (mon_showmappings jos fuel [''showmappings'', ''fffff000'', ''fffff000'']))) =
     fuel \<and>
   snd (monitor jos fuel [Some ''showmappings fffff000 fffff000'']) = Stopped OutOfFuel"
proof -
  have pg: "PGSIZE jos = 0x1000"
    by (simp add: jos_def)
  have a: "strtol jos ''fffff000'' 16 = (0xFFFFF000, [])"
    by (simp add: jos_eval)
  have r: "ROUNDDOWN (word_of_int 0xFFFFF000) 0x1000 \<le> (word_of_int 0xFFFFF000 :: u32)"
    "ROUNDUP (word_of_int 0xFFFFF000) 0x1000 = (0xFFFFF000 :: u32)"
    by (simp_all add: ROUNDDOWN_def ROUNDUP_def)
  note run = showmappings_walk_never_ends [OF pg a a r, of fuel "''showmappings''"]
  have t: "tokens ''showmappings fffff000 fffff000'' = [''showmappings'', ''fffff000'', ''fffff000'']"
    by (simp add: tokens_def strchr_def WHITESPACE_def)
  have "runcmd jos fuel ''showmappings fffff000 fffff000'' =
      mon_showmappings jos fuel [''showmappings'', ''fffff000'', ''fffff000'']"
    using runcmd_showmappings [of "''showmappings fffff000 fffff000''" jos fuel]
    by (simp add: t)
  then have "snd (monitor jos fuel [Some ''showmappings fffff000 fffff000'']) = Stopped OutOfFuel"
    using run by (simp add: monitor_def split_beta split: status.splits prod.splits)
  with run show ?thesis
    by simp
qed

end
